theory Spec2Isabelle
  imports Complex_Main
begin

section \<open>Python values, errors and list operations\<close>

text \<open>
  The program is \<^verbatim>\<open>scripts/hyperspectral/EnvironmentalLoggerAnalyser.py\<close> (Python 2).
  Every exception the source can raise is a value: a computation returns
  \<open>py_error + 'a\<close>, with \<open>Inl\<close> for the exception.  Python raises \<open>ValueError\<close> both
  from \<open>float\<close> and from \<open>list.remove\<close>; the payload keeps the two apart.
\<close>

datatype value_error = CouldNotConvertToFloat | NotInList | InvalidLiteral

datatype py_error = IndexError | KeyError | TypeError | AttributeError | ValueError value_error

definition ebind :: "'e + 'a \<Rightarrow> ('a \<Rightarrow> 'e + 'b) \<Rightarrow> 'e + 'b" where
  "ebind m g = (case m of Inl e \<Rightarrow> Inl e | Inr a \<Rightarrow> g a)"

text \<open>\<open>sub in s\<close> on Python strings: \<open>sub\<close> occurs in \<open>s\<close> as a contiguous block.\<close>

fun starts_with :: "string \<Rightarrow> string \<Rightarrow> bool" where
  "starts_with [] s = True"
| "starts_with (p # ps) [] = False"
| "starts_with (p # ps) (c # cs) = (p = c \<and> starts_with ps cs)"

fun str_in :: "string \<Rightarrow> string \<Rightarrow> bool" where
  "str_in sub [] = (sub = [])"
| "str_in sub (c # cs) = (starts_with sub (c # cs) \<or> str_in sub cs)"

text \<open>\<open>s.find(c)\<close>: the index of the first \<open>c\<close> in \<open>s\<close>, or \<open>-1\<close>.\<close>

definition find_chr :: "char \<Rightarrow> string \<Rightarrow> int" where
  "find_chr c s = (if c \<in> set s then int (length (takeWhile (\<lambda>x. x \<noteq> c) s)) else - 1)"

text \<open>\<open>xs[a:b]\<close>: a negative bound counts from the end, and both bounds are clamped.\<close>

definition slice_bound :: "int \<Rightarrow> nat \<Rightarrow> nat" where
  "slice_bound x n = (if x < 0 then nat (max 0 (x + int n)) else min (nat x) n)"

definition py_slice :: "'a list \<Rightarrow> int \<Rightarrow> int \<Rightarrow> 'a list" where
  "py_slice xs a b = drop (slice_bound a (length xs)) (take (slice_bound b (length xs)) xs)"

text \<open>\<open>xs[i]\<close>: a negative index counts from the end; out of range raises \<open>IndexError\<close>.\<close>

definition py_index :: "'a list \<Rightarrow> int \<Rightarrow> py_error + 'a" where
  "py_index xs i =
     (let n = int (length xs); p = (if i < 0 then n + i else i)
      in if 0 \<le> p \<and> p < n then Inr (xs ! nat p) else Inl IndexError)"

text \<open>\<open>xs.remove(x)\<close>: drops the first element equal to \<open>x\<close>; \<open>ValueError\<close> if there is none.\<close>

definition py_remove :: "'a \<Rightarrow> 'a list \<Rightarrow> py_error + 'a list" where
  "py_remove x xs = (if x \<in> set xs then Inr (remove1 x xs) else Inl (ValueError NotInList))"

text \<open>\<open>del xs[p]\<close> and \<open>xs.insert(p, x)\<close> for a non-negative \<open>p\<close>.\<close>

definition py_del :: "'a list \<Rightarrow> nat \<Rightarrow> py_error + 'a list" where
  "py_del xs p = (if p < length xs then Inr (take p xs @ drop (Suc p) xs) else Inl IndexError)"

definition py_insert :: "'a list \<Rightarrow> nat \<Rightarrow> 'a \<Rightarrow> 'a list" where
  "py_insert xs p x = take p xs @ x # drop p xs"

text \<open>\<open>s.split('\n')\<close> and \<open>'\n'.join(xs)\<close>.\<close>

fun split_nl :: "string \<Rightarrow> string list" where
  "split_nl [] = [[]]"
| "split_nl (c # cs) =
     (if c = CHR 0x0A then [] # split_nl cs
      else (case split_nl cs of [] \<Rightarrow> [[c]] | l # ls \<Rightarrow> (c # l) # ls))"

fun join_nl :: "string list \<Rightarrow> string" where
  "join_nl [] = []"
| "join_nl [l] = l"
| "join_nl (l # l' # ls) = l @ CHR 0x0A # join_nl (l' # ls)"


section \<open>The repairer: \<open>formattingTheJSONFileAndReturnWavelengthAndSpectrum\<close>\<close>

text \<open>
  The loop state of lines 74--90: \<open>linePosition\<close>, the two accumulators and their
  indices \<open>j\<close> and \<open>k\<close>.  \<open>tempList\<close> does not change during the loop.  The builtin
  \<open>float\<close> is a parameter of the model: \<open>None\<close> is its \<open>ValueError\<close>.
\<close>

record 'v scan_state =
  linePosition :: "nat list"
  wavelengthList :: "'v list list"
  spectrumList :: "'v list list"
  idx_j :: nat
  idx_k :: nat

definition marker :: string where
  "marker = ''environment_sensor_set_reading''"

text \<open>\<open>tempList[i][tempList[i].find(':') + 1: -2]\<close>\<close>

definition numeric_text :: "string \<Rightarrow> string" where
  "numeric_text line = py_slice line (find_chr CHR '':'' line + 1) (- 2)"

text \<open>\<open>acc[j].append(float(...))\<close>\<close>

definition append_value ::
  "(string \<Rightarrow> 'v option) \<Rightarrow> string \<Rightarrow> 'v list list \<Rightarrow> nat \<Rightarrow> py_error + 'v list list" where
  "append_value float line acc j =
     (if j < length acc then
        (case float (numeric_text line) of
           None \<Rightarrow> Inl (ValueError CouldNotConvertToFloat)
         | Some v \<Rightarrow> Inr (acc[j := acc ! j @ [v]]))
      else Inl IndexError)"

text \<open>
  The condition of lines 82--83, evaluated left to right with Python's short-circuit
  \<open>and\<close>: \<open>tempList[i - 4]\<close> is read only when line \<open>i\<close> has no \<open>wavelength\<close>.
\<close>

definition array_end :: "string list \<Rightarrow> nat \<Rightarrow> py_error + bool" where
  "array_end tempList i =
     (if str_in ''wavelength'' (tempList ! i) then Inr False
      else ebind (py_index tempList (int i - 4)) (\<lambda>back.
        Inr (str_in ''wavelength'' back \<and> \<not> str_in ''band'' (tempList ! i)
             \<and> \<not> str_in '','' (tempList ! i))))"

text \<open>
  One iteration of the loop, lines 77--90, as its four \<open>if\<close> statements in order:
  the boundary mark, the wavelength value, the start of a new pair of slots, the
  spectrum value.
\<close>

definition mark_boundary :: "string list \<Rightarrow> nat \<Rightarrow> 'v scan_state \<Rightarrow> 'v scan_state" where
  "mark_boundary tempList i st =
     (if str_in marker (tempList ! i) \<and> i > 2
      then st\<lparr>linePosition := linePosition st @ [i - 1]\<rparr> else st)"

definition take_wavelength ::
  "(string \<Rightarrow> 'v option) \<Rightarrow> string list \<Rightarrow> nat \<Rightarrow> 'v scan_state \<Rightarrow> py_error + 'v scan_state" where
  "take_wavelength float tempList i st =
     (if str_in ''wavelength'' (tempList ! i)
      then ebind (append_value float (tempList ! i) (wavelengthList st) (idx_j st))
             (\<lambda>wl. Inr (st\<lparr>wavelengthList := wl\<rparr>))
      else Inr st)"

definition new_slots :: "string list \<Rightarrow> nat \<Rightarrow> 'v scan_state \<Rightarrow> py_error + 'v scan_state" where
  "new_slots tempList i st =
     ebind (array_end tempList i) (\<lambda>adv.
       if adv
       then Inr (st\<lparr>wavelengthList := wavelengthList st @ [[]],
                    idx_j := idx_j st + 1,
                    spectrumList := spectrumList st @ [[]],
                    idx_k := idx_k st + 1\<rparr>)
       else Inr st)"

definition take_spectrum ::
  "(string \<Rightarrow> 'v option) \<Rightarrow> string list \<Rightarrow> nat \<Rightarrow> 'v scan_state \<Rightarrow> py_error + 'v scan_state" where
  "take_spectrum float tempList i st =
     (if str_in ''spectrum'' (tempList ! i)
      then ebind (append_value float (tempList ! i) (spectrumList st) (idx_k st))
             (\<lambda>sp. Inr (st\<lparr>spectrumList := sp\<rparr>))
      else Inr st)"

definition scan_line ::
  "(string \<Rightarrow> 'v option) \<Rightarrow> string list \<Rightarrow> nat \<Rightarrow> 'v scan_state \<Rightarrow> py_error + 'v scan_state" where
  "scan_line float tempList i st =
     ebind (take_wavelength float tempList i (mark_boundary tempList i st)) (\<lambda>st1.
     ebind (new_slots tempList i st1) (\<lambda>st2.
       take_spectrum float tempList i st2))"

text \<open>\<open>for i in range(len(tempList))\<close>, stopping at the first exception.\<close>

fun scan_loop ::
  "(string \<Rightarrow> 'v option) \<Rightarrow> string list \<Rightarrow> nat list \<Rightarrow> 'v scan_state \<Rightarrow> py_error + 'v scan_state" where
  "scan_loop float tempList [] st = Inr st"
| "scan_loop float tempList (i # is) st =
     ebind (scan_line float tempList i st) (scan_loop float tempList is)"

definition scan_init :: "'v scan_state" where
  "scan_init = \<lparr>linePosition = [], wavelengthList = [[]], spectrumList = [[]], idx_j = 0, idx_k = 0\<rparr>"

definition scan :: "(string \<Rightarrow> 'v option) \<Rightarrow> string list \<Rightarrow> py_error + 'v scan_state" where
  "scan float tempList = scan_loop float tempList [0..<length tempList] scan_init"

text \<open>Lines 95--97: each marked line is deleted and \<open>},{\<close> inserted in its place.\<close>

fun stitch :: "string list \<Rightarrow> nat list \<Rightarrow> py_error + string list" where
  "stitch tempList [] = Inr tempList"
| "stitch tempList (p # ps) =
     ebind (py_del tempList p) (\<lambda>t. stitch (py_insert t p ''},{'') ps)"

text \<open>Lines 102--107: the brackets are added unless the first line has a \<open>[\<close> or the last a \<open>]\<close>.\<close>

definition wrap_brackets :: "string list \<Rightarrow> py_error + string list" where
  "wrap_brackets tempList =
     ebind (py_index tempList 0) (\<lambda>first.
     ebind (py_index tempList (- 1)) (\<lambda>final.
       if \<not> str_in ''['' first \<and> \<not> str_in '']'' final
       then Inr (py_insert tempList 0 ''['' @ ['']''])
       else Inr tempList))"

text \<open>
  The whole function on the file's content.  It returns the two series and the content
  written back; an exception leaves the file as it was, since the file is truncated and
  written only after the last step that can raise.
\<close>

definition formattingTheJSONFileAndReturnWavelengthAndSpectrum ::
  "(string \<Rightarrow> 'v option) \<Rightarrow> string \<Rightarrow> py_error + ('v list list \<times> 'v list list \<times> string)" where
  "formattingTheJSONFileAndReturnWavelengthAndSpectrum float content =
     (let tempList = split_nl content in
      ebind (scan float tempList) (\<lambda>st.
      ebind (py_remove [] (wavelengthList st)) (\<lambda>wl.
      ebind (py_remove [] (spectrumList st)) (\<lambda>sp.
      ebind (stitch tempList (linePosition st)) (\<lambda>stitched.
      ebind (wrap_brackets stitched) (\<lambda>wrapped.
        Inr (wl, sp, join_nl wrapped)))))))"


section \<open>JSON values and the operations the builder applies to them\<close>

text \<open>
  What \<open>json.loads\<close> returns: strings, numbers, booleans, \<open>None\<close>, lists and dicts.  A dict
  is the list of its items in iteration order; looking a key up takes its first item.
\<close>

datatype json =
    JString string
  | JNumber rat
  | JBool bool
  | JNull
  | JArray "json list"
  | JObject "(string \<times> json) list"

text \<open>\<open>x[key]\<close> for a string key: only a dict accepts it.\<close>

definition getitem :: "json \<Rightarrow> string \<Rightarrow> py_error + json" where
  "getitem x key =
     (case x of
        JObject kvs \<Rightarrow> (case map_of kvs key of None \<Rightarrow> Inl KeyError | Some v \<Rightarrow> Inr v)
      | _ \<Rightarrow> Inl TypeError)"

text \<open>\<open>key in x\<close> for a string key.\<close>

definition contains_key :: "json \<Rightarrow> string \<Rightarrow> py_error + bool" where
  "contains_key x key =
     (case x of
        JObject kvs \<Rightarrow> Inr (key \<in> fst ` set kvs)
      | JArray xs \<Rightarrow> Inr (JString key \<in> set xs)
      | JString s \<Rightarrow> Inr (str_in key s)
      | _ \<Rightarrow> Inl TypeError)"

text \<open>\<open>type(x) in (str, unicode)\<close>\<close>

definition is_text :: "json \<Rightarrow> bool" where
  "is_text x = (case x of JString s \<Rightarrow> True | _ \<Rightarrow> False)"

text \<open>\<open>s.encode('ascii', 'ignore')\<close> on a string: the characters above 127 are dropped.\<close>

definition ascii_ignore :: "string \<Rightarrow> string" where
  "ascii_ignore s = filter (\<lambda>c. (of_char c :: nat) < 128) s"

text \<open>\<open>x.encode('ascii', 'ignore')\<close> on a JSON value: only a string has the method.\<close>

definition encode_ascii :: "json \<Rightarrow> py_error + string" where
  "encode_ascii x = (case x of JString s \<Rightarrow> Inr (ascii_ignore s) | _ \<Rightarrow> Inl AttributeError)"

text \<open>A list comprehension whose element expression can raise.\<close>

fun emap :: "('a \<Rightarrow> 'e + 'b) \<Rightarrow> 'a list \<Rightarrow> 'e + 'b list" where
  "emap g [] = Inr []"
| "emap g (x # xs) = ebind (g x) (\<lambda>y. ebind (emap g xs) (\<lambda>ys. Inr (y # ys)))"

definition UNIT_DICTIONARY :: "(string \<times> string) list" where
  "UNIT_DICTIONARY =
    [(''m'', ''meter''), (''hPa'', ''hecto-Pascal''), (''DegCelsius'', ''Celsius''),
     (''s'', ''second''), (''m/s'', ''meter second-1''), (''mm/h'', ''milimeters hour-1''),
     (''relHumPerCent'', ''percent''), (''?mol/(m^2*s)'', ''micromole meters-2 second-1''),
     (''kilo Lux'', ''kilo Lux''), (''degrees'', ''degrees''), ('''', '''')]"

definition NAMES :: "(string \<times> string) list" where
  "NAMES = [(''sensor par'', ''Sensor Photosynthetical Active Radiation'')]"

text \<open>\<open>renameTheValue\<close>, lines 121--138; the names it is given are unicode dict keys.\<close>

definition renameTheValue :: "string \<Rightarrow> string" where
  "renameTheValue name =
     (let name1 = ascii_ignore name;
          name2 = (case map_of UNIT_DICTIONARY name1 of
                     Some u \<Rightarrow> u
                   | None \<Rightarrow> (case map_of NAMES name1 of Some n \<Rightarrow> n | None \<Rightarrow> name1))
      in map (\<lambda>letters. if letters = CHR '' '' then CHR ''_'' else letters) name2)"

text \<open>
  \<open>getSpectrometerInformation\<close>, lines 141--150.  The builtin \<open>int\<close> is a parameter, as
  \<open>float\<close> is; it is applied to whatever JSON value the key holds.
\<close>

definition getSpectrometerInformation ::
  "(json \<Rightarrow> py_error + 'v) \<Rightarrow> json list \<Rightarrow> py_error + ('v list \<times> 'v list)" where
  "getSpectrometerInformation to_int arrayOfJSON =
     ebind (emap (\<lambda>intensityMembers.
              ebind (getitem intensityMembers ''spectrometer'') (\<lambda>sp.
              ebind (getitem sp ''maxFixedIntensity'') to_int)) arrayOfJSON) (\<lambda>maxFixedIntensity.
     ebind (emap (\<lambda>integrateMembers.
              ebind (getitem integrateMembers ''spectrometer'') (\<lambda>sp.
              ebind (getitem sp ''integration time in ?s'') to_int)) arrayOfJSON) (\<lambda>integrationTime.
       Inr (maxFixedIntensity, integrationTime)))"

text \<open>\<open>float(valueMembers[dataName][member].encode('ascii', 'ignore'))\<close>\<close>

definition member_value ::
  "(string \<Rightarrow> 'v option) \<Rightarrow> string \<Rightarrow> string \<Rightarrow> json \<Rightarrow> py_error + 'v" where
  "member_value float dataName member valueMembers =
     ebind (getitem valueMembers dataName) (\<lambda>descriptor.
     ebind (getitem descriptor member) (\<lambda>v.
     ebind (encode_ascii v) (\<lambda>s.
       case float s of None \<Rightarrow> Inl (ValueError CouldNotConvertToFloat) | Some r \<Rightarrow> Inr r)))"

text \<open>\<open>getListOfValue\<close> and \<open>getListOfRawValue\<close>, lines 153--164.\<close>

definition getListOfValue ::
  "(string \<Rightarrow> 'v option) \<Rightarrow> json list \<Rightarrow> string \<Rightarrow> py_error + 'v list" where
  "getListOfValue float arrayOfJSON dataName =
     emap (member_value float dataName ''value'') arrayOfJSON"

definition getListOfRawValue ::
  "(string \<Rightarrow> 'v option) \<Rightarrow> json list \<Rightarrow> string \<Rightarrow> py_error + 'v list" where
  "getListOfRawValue float arrayOfJSON dataName =
     emap (member_value float dataName ''rawValue'') arrayOfJSON"

text \<open>
  \<open>_UNIT_DICTIONARY[x]\<close> for the JSON value \<open>x\<close> of a \<open>unit\<close> member: a string is looked up
  as it is; a list or a dict is unhashable; any other value is a key the table lacks.
\<close>

definition unit_lookup :: "json \<Rightarrow> py_error + string" where
  "unit_lookup x =
     (case x of
        JString u \<Rightarrow> (case map_of UNIT_DICTIONARY u of None \<Rightarrow> Inl KeyError | Some t \<Rightarrow> Inr t)
      | JArray xs \<Rightarrow> Inl TypeError
      | JObject kvs \<Rightarrow> Inl TypeError
      | _ \<Rightarrow> Inl KeyError)"


section \<open>The container\<close>

text \<open>
  The netCDF dataset as the builder sees it: the dimensions and variables created so far,
  in order of creation, the \<open>history\<close> attribute and whether the file has been closed.
  A dimension of size \<open>None\<close> is unlimited.  What the netCDF library itself may refuse (a
  name used twice, a value of the wrong shape, the file system) is outside the model.
\<close>

datatype nc_type = NC_F4 | NC_STR

datatype 'v nc_data = NoData | Numbers "'v list" | Matrix "'v list list" | Strings "json list"

record 'v nc_variable =
  var_name :: string
  var_type :: nc_type
  var_dims :: "string list"
  var_data :: "'v nc_data"
  var_units :: "string option"

record 'v dataset =
  file_path :: string
  dimensions :: "(string \<times> nat option) list"
  variables :: "'v nc_variable list"
  history :: "string option"
  is_closed :: bool

text \<open>\<open>Dataset(outputFileName, 'w', format='NETCDF4')\<close>\<close>

definition Dataset :: "string \<Rightarrow> 'v dataset" where
  "Dataset outputFileName =
     \<lparr>file_path = outputFileName, dimensions = [], variables = [], history = None,
      is_closed = False\<rparr>"

definition createDimension :: "'v dataset \<Rightarrow> string \<Rightarrow> nat option \<Rightarrow> 'v dataset" where
  "createDimension ds name n = ds\<lparr>dimensions := dimensions ds @ [(name, n)]\<rparr>"

text \<open>\<open>createVariable\<close> adds a variable without data; its handle is its position.\<close>

definition createVariable ::
  "'v dataset \<Rightarrow> string \<Rightarrow> nc_type \<Rightarrow> string list \<Rightarrow> 'v dataset" where
  "createVariable ds name ty dims =
     ds\<lparr>variables := variables ds @
           [\<lparr>var_name = name, var_type = ty, var_dims = dims, var_data = NoData,
             var_units = None\<rparr>]\<rparr>"

definition assign :: "'v dataset \<Rightarrow> nat \<Rightarrow> 'v nc_data \<Rightarrow> 'v dataset" where
  "assign ds h d = ds\<lparr>variables := (variables ds)[h := (variables ds ! h)\<lparr>var_data := d\<rparr>]\<rparr>"

definition set_units :: "'v dataset \<Rightarrow> nat \<Rightarrow> string \<Rightarrow> 'v dataset" where
  "set_units ds h u = ds\<lparr>variables := (variables ds)[h := (variables ds ! h)\<lparr>var_units := Some u\<rparr>]\<rparr>"

text \<open>\<open>variable[i] = x\<close> for the next index \<open>i\<close> of a string variable.\<close>

definition append_string :: "nat \<Rightarrow> json \<Rightarrow> 'v dataset \<Rightarrow> 'v dataset" where
  "append_string h x ds =
     assign ds h (Strings ((case var_data (variables ds ! h) of Strings xs \<Rightarrow> xs | _ \<Rightarrow> []) @ [x]))"

text \<open>An exception leaves the dataset as it was when it was raised.\<close>

definition attach :: "'s \<Rightarrow> py_error + 'a \<Rightarrow> (py_error \<times> 's) + 'a" where
  "attach ds m = (case m of Inl e \<Rightarrow> Inl (e, ds) | Inr a \<Rightarrow> Inr a)"


section \<open>The builder: \<open>main\<close>\<close>

text \<open>
  Lines 188--197, the branch of a field that is neither the spectrometer nor a string.
  The variable is created before its values are collected (two statements); the
  companion's values are collected before it is created (one assignment, whose right-hand
  side Python evaluates first).
\<close>

definition emit_scalar ::
  "(string \<Rightarrow> 'v option) \<Rightarrow> json list \<Rightarrow> string \<Rightarrow> json \<Rightarrow> 'v dataset
     \<Rightarrow> (py_error \<times> 'v dataset) + 'v dataset" where
  "emit_scalar float dataMemberList data field ds =
     (let h = length (variables ds);
          ds1 = createVariable ds (renameTheValue data) NC_F4 [''time'']
      in ebind (attach ds1 (getListOfValue float dataMemberList data)) (\<lambda>vals.
         let ds2 = assign ds1 h (Numbers vals)
         in ebind (attach ds2 (contains_key field ''unit'')) (\<lambda>has_unit.
            ebind (if has_unit
                   then ebind (attach ds2 (ebind (getitem field ''unit'') unit_lookup))
                          (\<lambda>u. Inr (set_units ds2 h u))
                   else Inr ds2) (\<lambda>ds3.
            ebind (attach ds3 (contains_key field ''rawValue'')) (\<lambda>has_raw.
              if has_raw
              then ebind (attach ds3 (getListOfRawValue float dataMemberList data)) (\<lambda>raws.
                     Inr (assign (createVariable ds3 (renameTheValue data @ ''_rawValue'') NC_F4 [''time''])
                            (length (variables ds3)) (Numbers raws)))
              else Inr ds3)))))"

text \<open>Lines 198--200, the branch of a string.\<close>

definition emit_text :: "string \<Rightarrow> json \<Rightarrow> 'v dataset \<Rightarrow> 'v dataset" where
  "emit_text data field ds =
     assign (createVariable ds (renameTheValue data) NC_STR []) (length (variables ds)) (Strings [field])"

text \<open>Lines 202--206; \<open>getSpectrometerInformation\<close> is called once for each variable.\<close>

definition emit_spectrometer ::
  "(json \<Rightarrow> py_error + 'v) \<Rightarrow> json list \<Rightarrow> 'v dataset \<Rightarrow> (py_error \<times> 'v dataset) + 'v dataset" where
  "emit_spectrometer to_int dataMemberList ds =
     ebind (attach ds (getSpectrometerInformation to_int dataMemberList)) (\<lambda>info.
       let ds1 = assign (createVariable ds ''Spectrometer_maxFixedIntensity'' NC_F4 [''time''])
                   (length (variables ds)) (Numbers (fst info))
       in ebind (attach ds1 (getSpectrometerInformation to_int dataMemberList)) (\<lambda>info'.
            Inr (assign (createVariable ds1 ''Spectrometer_Integration_Time_In_Microseconds'' NC_F4 [''time''])
                   (length (variables ds1)) (Numbers (snd info')))))"

text \<open>One iteration of the loop over the fields of the first record, lines 187--206.\<close>

definition emit_field ::
  "(string \<Rightarrow> 'v option) \<Rightarrow> (json \<Rightarrow> py_error + 'v) \<Rightarrow> json list \<Rightarrow> json \<Rightarrow> string
     \<Rightarrow> 'v dataset \<Rightarrow> (py_error \<times> 'v dataset) + 'v dataset" where
  "emit_field float to_int dataMemberList template data ds =
     ebind (attach ds (getitem template data)) (\<lambda>field.
     ebind (if data \<noteq> ''spectrometer'' \<and> \<not> is_text field
            then emit_scalar float dataMemberList data field ds
            else if is_text field then Inr (emit_text data field ds)
            else Inr ds) (\<lambda>ds'.
       if data = ''spectrometer'' then emit_spectrometer to_int dataMemberList ds' else Inr ds'))"

fun emit_fields ::
  "(string \<Rightarrow> 'v option) \<Rightarrow> (json \<Rightarrow> py_error + 'v) \<Rightarrow> json list \<Rightarrow> json \<Rightarrow> string list
     \<Rightarrow> 'v dataset \<Rightarrow> (py_error \<times> 'v dataset) + 'v dataset" where
  "emit_fields float to_int dataMemberList template [] ds = Inr ds"
| "emit_fields float to_int dataMemberList template (data # rest) ds =
     ebind (emit_field float to_int dataMemberList template data ds)
       (emit_fields float to_int dataMemberList template rest)"

text \<open>
  \<open>for data in dataMemberList[0]\<close>: the keys of the first record.  Only a dict reaches
  this point, since \<open>['timestamp']\<close> has been read from every record.
\<close>

definition keys_of :: "json \<Rightarrow> py_error + string list" where
  "keys_of x = (case x of JObject kvs \<Rightarrow> Inr (map fst kvs) | _ \<Rightarrow> Inl TypeError)"

text \<open>Lines 208--213: \<open>if wavelength and spectrum\<close> holds for two non-empty lists.\<close>

definition emit_spectrum ::
  "'v list list option \<Rightarrow> 'v list list option \<Rightarrow> 'v dataset \<Rightarrow> 'v dataset" where
  "emit_spectrum wavelength spectrum ds =
     (case (wavelength, spectrum) of
        (Some (w0 # ws), Some (s0 # ss)) \<Rightarrow>
          (let ds1 = createDimension ds ''wavelength'' (Some (length w0));
               ds2 = assign (createVariable ds1 ''wavelength'' NC_F4 [''wavelength''])
                       (length (variables ds1)) (Numbers w0)
           in assign (createVariable ds2 ''spectrum'' NC_F4 [''time'', ''wavelength''])
                (length (variables ds2)) (Matrix (s0 # ss)))
      | _ \<Rightarrow> ds)"

text \<open>Lines 215--216: \<open>None + str\<close> and \<open>str + None\<close> raise \<open>TypeError\<close>.\<close>

definition write_history ::
  "string option \<Rightarrow> string option \<Rightarrow> 'v dataset \<Rightarrow> (py_error \<times> 'v dataset) + 'v dataset" where
  "write_history recordTime commandLine ds =
     (case recordTime of
        None \<Rightarrow> Inl (TypeError, ds)
      | Some t \<Rightarrow>
          (case commandLine of
             None \<Rightarrow> Inl (TypeError, ds)
           | Some c \<Rightarrow> Inr (ds\<lparr>history := Some (t @ '': python '' @ c), is_closed := True\<rparr>)))"

text \<open>Lines 175--213, everything before the provenance attribute.\<close>

definition build ::
  "(string \<Rightarrow> 'v option) \<Rightarrow> (json \<Rightarrow> py_error + 'v) \<Rightarrow> json list \<Rightarrow> string
     \<Rightarrow> 'v list list option \<Rightarrow> 'v list list option \<Rightarrow> (py_error \<times> 'v dataset) + 'v dataset" where
  "build float to_int JSONArray outputFileName wavelength spectrum =
     (let netCDFHandler = Dataset outputFileName in
      ebind (attach netCDFHandler
               (emap (\<lambda>JSONMembers. getitem JSONMembers ''environment_sensor_set_reading'') JSONArray))
        (\<lambda>dataMemberList.
      ebind (attach netCDFHandler
               (emap (\<lambda>JSONMembers. getitem JSONMembers ''timestamp'') dataMemberList))
        (\<lambda>timeStampList.
        let ds1 = createVariable (createDimension netCDFHandler ''time'' None) ''time'' NC_STR [''time''];
            ds2 = fold (append_string 0) timeStampList ds1
        in ebind (attach ds2 (py_index dataMemberList 0)) (\<lambda>template.
           ebind (attach ds2 (keys_of template)) (\<lambda>ks.
           ebind (emit_fields float to_int dataMemberList template ks ds2) (\<lambda>ds3.
             Inr (emit_spectrum wavelength spectrum ds3)))))))"

definition main ::
  "(string \<Rightarrow> 'v option) \<Rightarrow> (json \<Rightarrow> py_error + 'v) \<Rightarrow> json list \<Rightarrow> string
     \<Rightarrow> 'v list list option \<Rightarrow> 'v list list option \<Rightarrow> string option \<Rightarrow> string option
     \<Rightarrow> (py_error \<times> 'v dataset) + 'v dataset" where
  "main float to_int JSONArray outputFileName wavelength spectrum recordTime commandLine =
     ebind (build float to_int JSONArray outputFileName wavelength spectrum)
       (write_history recordTime commandLine)"


section \<open>Auxiliary notions for the statements\<close>

text \<open>
  The loop invariant of the repairer: both accumulators have one slot more than their
  index, and the two indices agree.
\<close>

definition lockstep :: "'v scan_state \<Rightarrow> bool" where
  "lockstep st \<longleftrightarrow>
     length (wavelengthList st) = idx_j st + 1 \<and> length (spectrumList st) = idx_k st + 1
     \<and> idx_j st = idx_k st"


text \<open>A line is a boundary when the next line has an index above 2 and holds the marker.\<close>

definition boundary :: "string list \<Rightarrow> nat \<Rightarrow> bool" where
  "boundary ls p \<longleftrightarrow> Suc p < length ls \<and> 2 < Suc p \<and> str_in marker (ls ! Suc p)"


definition stitched_lines :: "string list \<Rightarrow> string list" where
  "stitched_lines ls = map (\<lambda>p. if boundary ls p then ''},{'' else ls ! p) [0..<length ls]"

text \<open>The value a line adds to the wavelength series, and to the spectrum series.\<close>

definition wl_value :: "(string \<Rightarrow> 'v option) \<Rightarrow> string \<Rightarrow> 'v list" where
  "wl_value f l = (if str_in ''wavelength'' l then [the (f (numeric_text l))] else [])"

definition sp_value :: "(string \<Rightarrow> 'v option) \<Rightarrow> string \<Rightarrow> 'v list" where
  "sp_value f l = (if str_in ''spectrum'' l then [the (f (numeric_text l))] else [])"


text \<open>
  The layout the repairer is written for.  A record is given by its body: the lines
  between its opening and its closing brace, the first of which holds the record marker.
  The record's own text is the body between the two braces; the log is the records'
  texts one after the other, with nothing in between, so that the closing brace of a
  record and the opening brace of the next share a line.
\<close>

definition record_text :: "string list \<Rightarrow> string" where
  "record_text body = join_nl (''{'' # body @ [''}''])"

definition log_text :: "string list list \<Rightarrow> string" where
  "log_text bodies = concat (map record_text bodies)"

text \<open>The lines of such a log, and of its repaired form, with the joint line as a parameter.\<close>

definition joined_lines :: "string \<Rightarrow> string list list \<Rightarrow> string list" where
  "joined_lines joint bodies =
     ''{'' # hd bodies @ concat (map (\<lambda>body. joint # body) (tl bodies)) @ [''}'']"

text \<open>\<open>','.join(xs)\<close>, and the text of a JSON array with the given element texts.\<close>

fun join_comma :: "string list \<Rightarrow> string" where
  "join_comma [] = []"
| "join_comma [e] = e"
| "join_comma (e # e' # es) = e @ '','' @ join_comma (e' # es)"

definition array_text :: "string list \<Rightarrow> string" where
  "array_text elements = join_nl [''['', join_comma elements, '']'']"

definition expected_layout :: "string list list \<Rightarrow> bool" where
  "expected_layout bodies \<longleftrightarrow>
     bodies \<noteq> [] \<and>
     (\<forall>body\<in>set bodies.
        2 \<le> length body \<and> str_in marker (hd body)
        \<and> (\<forall>l\<in>set (tl body). \<not> str_in marker l)
        \<and> (\<forall>l\<in>set body. CHR 0x0A \<notin> set l))"

text \<open>
  The accumulators end with an empty slot when the last line that holds a wavelength or a
  spectrum value is followed by the end of an array.
\<close>

definition closes_last_array :: "string list \<Rightarrow> bool" where
  "closes_last_array ls \<longleftrightarrow>
     (\<exists>e\<in>set [0..<length ls]. array_end ls e = Inr True \<and> \<not> str_in ''spectrum'' (ls ! e)
        \<and> (\<forall>i\<in>set [Suc e..<length ls].
              \<not> str_in ''wavelength'' (ls ! i) \<and> \<not> str_in ''spectrum'' (ls ! i)))"

text \<open>The replacement of lines 95--97 without indices: a line goes when the next holds the marker.\<close>

fun mark :: "string list \<Rightarrow> string list" where
  "mark (x # y # r) = (if str_in marker y then ''},{'' else x) # mark (y # r)"
| "mark xs = xs"

definition stitched_from :: "nat \<Rightarrow> string list \<Rightarrow> string list" where
  "stitched_from i ls =
     map (\<lambda>p. if Suc p < length ls \<and> 2 < Suc (i + p) \<and> str_in marker (ls ! Suc p)
              then ''},{'' else ls ! p) [0..<length ls]"

definition ends_empty :: "'v scan_state \<Rightarrow> bool" where
  "ends_empty st \<longleftrightarrow> lockstep st \<and> last (wavelengthList st) = [] \<and> last (spectrumList st) = []"


text \<open>The dataset with one more variable, and the variables the builder creates.\<close>

definition add_var :: "'v dataset \<Rightarrow> 'v nc_variable \<Rightarrow> 'v dataset" where
  "add_var ds v = ds\<lparr>variables := variables ds @ [v]\<rparr>"

definition time_series_var :: "string \<Rightarrow> 'v list \<Rightarrow> string option \<Rightarrow> 'v nc_variable" where
  "time_series_var name vals units =
     \<lparr>var_name = name, var_type = NC_F4, var_dims = [''time''], var_data = Numbers vals,
      var_units = units\<rparr>"

definition text_var :: "string \<Rightarrow> json \<Rightarrow> 'v nc_variable" where
  "text_var name x =
     \<lparr>var_name = name, var_type = NC_STR, var_dims = [], var_data = Strings [x],
      var_units = None\<rparr>"

text \<open>The dataset when the loop over the fields starts: the time dimension and variable.\<close>

definition time_state :: "string \<Rightarrow> json list \<Rightarrow> 'v dataset" where
  "time_state outputFileName timeStampList =
     \<lparr>file_path = outputFileName, dimensions = [(''time'', None)],
      variables = [\<lparr>var_name = ''time'', var_type = NC_STR, var_dims = [''time''],
                    var_data = (if timeStampList = [] then NoData else Strings timeStampList),
                    var_units = None\<rparr>],
      history = None, is_closed = False\<rparr>"

text \<open>One iteration only adds variables, and touches nothing else.\<close>

definition grows :: "'v dataset \<Rightarrow> 'v dataset \<Rightarrow> bool" where
  "grows ds ds' \<longleftrightarrow> (\<exists>new. ds' = ds\<lparr>variables := variables ds @ new\<rparr>)"


text \<open>
  A record with one spectrometer sub-object, as far as the repairer can tell from the
  lines of its body.  Inside a body the test of lines 82--83 can hold from the fifth line
  on: the line has no \<open>wavelength\<close>, \<open>band\<close> or comma, and the line four lines above has
  \<open>wavelength\<close>.
\<close>

definition closes_array :: "string list \<Rightarrow> nat \<Rightarrow> bool" where
  "closes_array body p \<longleftrightarrow>
     4 \<le> p \<and> p < length body \<and> \<not> str_in ''wavelength'' (body ! p)
     \<and> str_in ''wavelength'' (body ! (p - 4))
     \<and> \<not> str_in ''band'' (body ! p) \<and> \<not> str_in '','' (body ! p)"

text \<open>
  The body has exactly one such line.  It holds no spectrum value, a spectrum value comes
  before it, no wavelength or spectrum value comes after it, and the last four lines of
  the body hold no wavelength (so that the look-back from the first lines of the next
  record, or from the first lines of the file, finds none).
\<close>

definition one_spectrometer :: "string list \<Rightarrow> bool" where
  "one_spectrometer body \<longleftrightarrow>
     (\<exists>e\<in>set [0..<length body].
        closes_array body e \<and> \<not> str_in ''spectrum'' (body ! e)
        \<and> (\<forall>p\<in>set [0..<length body]. closes_array body p \<longrightarrow> p = e)
        \<and> (\<exists>p\<in>set [0..<e]. str_in ''spectrum'' (body ! p))
        \<and> (\<forall>p\<in>set [Suc e..<length body].
              \<not> str_in ''wavelength'' (body ! p) \<and> \<not> str_in ''spectrum'' (body ! p)))
     \<and> (\<forall>l\<in>set (drop (length body - 4) body). \<not> str_in ''wavelength'' l)"

text \<open>What a record's lines add to the wavelength accumulator, and to the spectrum accumulator.\<close>

definition wl_values :: "(string \<Rightarrow> 'v option) \<Rightarrow> string list \<Rightarrow> 'v list" where
  "wl_values f body = concat (map (wl_value f) body)"

definition sp_values :: "(string \<Rightarrow> 'v option) \<Rightarrow> string list \<Rightarrow> 'v list" where
  "sp_values f body = concat (map (sp_value f) body)"


section \<open>Concrete inputs for the examples\<close>

text \<open>
  The theorems below hold for every conversion function \<open>float\<close>.  The closed examples
  need one: \<open>decimal_float\<close> reads a plain decimal literal (spaces around it, an optional
  sign, digits with an optional point) as a rational, and is \<open>None\<close> on anything else.
  On such literals Python's \<open>float\<close> returns the double nearest to that rational.
\<close>

definition digit_of :: "char \<Rightarrow> int option" where
  "digit_of c =
     (if c \<in> set ''0123456789''
      then Some (int (length (takeWhile (\<lambda>d. d \<noteq> c) ''0123456789''))) else None)"

fun digits_value :: "int \<Rightarrow> string \<Rightarrow> int option" where
  "digits_value acc [] = Some acc"
| "digits_value acc (c # cs) =
     (case digit_of c of None \<Rightarrow> None | Some d \<Rightarrow> digits_value (10 * acc + d) cs)"

definition decimal_float :: "string \<Rightarrow> rat option" where
  "decimal_float s =
     (let t = rev (dropWhile (\<lambda>c. c = CHR '' '') (rev (dropWhile (\<lambda>c. c = CHR '' '') s)));
          neg = (t \<noteq> [] \<and> hd t = CHR ''-'');
          u = (if t \<noteq> [] \<and> (hd t = CHR ''-'' \<or> hd t = CHR ''+'') then tl t else t);
          ip = takeWhile (\<lambda>c. c \<noteq> CHR ''.'') u;
          fp = drop (Suc (length ip)) u
      in if ip = [] \<and> fp = [] then None
         else (case (digits_value 0 ip, digits_value 0 fp) of
                 (Some a, Some b) \<Rightarrow>
                    Some ((if neg then - 1 else 1) * (of_int a + of_int b / 10 ^ length fp))
               | _ \<Rightarrow> None))"

text \<open>
  A log of two reading records, each with one spectrometer sub-object of two bands.  The
  records are joined the way the repairer expects: the closing brace of one record and the
  opening brace of the next share a line.  The file has no carriage returns, so the
  \<open>-2\<close> of the slice takes the last digit with the comma (\<open>500.00,\<close> is read as \<open>500.0\<close>).
\<close>

definition log2_lines :: "string list" where
  "log2_lines =
    [''{'',
     ''\"environment_sensor_set_reading\": {'',
     ''\"timestamp\": \"2016.04.07-12:00:07\",'',
     ''\"spectrometer\": {'',
     ''\"maxFixedIntensity\": \"16383\",'',
     ''\"integration time in ?s\": \"5000\",'',
     ''\"bands\": ['',
     ''{'',
     ''\"wavelength\": 500.00,'',
     ''\"spectrum\": 0.100'',
     ''},'',
     ''{'',
     ''\"wavelength\": 600.00,'',
     ''\"spectrum\": 0.200'',
     ''}'',
     '']'',
     ''}'',
     ''}'',
     ''}{'',
     ''\"environment_sensor_set_reading\": {'',
     ''\"timestamp\": \"2016.04.07-12:00:12\",'',
     ''\"spectrometer\": {'',
     ''\"maxFixedIntensity\": \"16383\",'',
     ''\"integration time in ?s\": \"5000\",'',
     ''\"bands\": ['',
     ''{'',
     ''\"wavelength\": 500.00,'',
     ''\"spectrum\": 0.300'',
     ''},'',
     ''{'',
     ''\"wavelength\": 600.00,'',
     ''\"spectrum\": 0.400'',
     ''}'',
     '']'',
     ''}'',
     ''}'',
     ''}'']"

definition log2 :: string where
  "log2 = join_nl log2_lines"

definition log2_repaired :: string where
  "log2_repaired = join_nl (''['' # log2_lines[18 := ''},{''] @ ['']''])"

text \<open>
  A log whose only record starts after two empty lines, so that the first (and only) line
  with the record marker has index 3.
\<close>

definition late_lines :: "string list" where
  "late_lines =
    ['''',
     '''',
     ''{'',
     ''\"environment_sensor_set_reading\": {'',
     ''\"timestamp\": \"2016.04.07-12:00:07\"'',
     ''}'',
     ''}'']"

definition late_log :: string where
  "late_log = join_nl late_lines"

text \<open>A log whose wavelength value is written as a JSON string.\<close>

definition quoted_lines :: "string list" where
  "quoted_lines =
    [''{'',
     ''\"wavelength\": \"500.0\",'',
     ''\"spectrum\": 0.100'',
     ''}'']"

definition quoted_log :: string where
  "quoted_log = join_nl quoted_lines"

text \<open>The bodies of the two records of \<open>log2\<close>: its lines but the braces and the joint line.\<close>

definition log2_bodies :: "string list list" where
  "log2_bodies = [take 17 (drop 1 log2_lines), take 17 (drop 19 log2_lines)]"

text \<open>
  A record whose spectrometer sub-object is followed by another field, so that the line
  closing the sub-object ends in a comma; and a log of two such records, joined as above.
\<close>

definition trailing_body :: "string \<Rightarrow> string \<Rightarrow> string \<Rightarrow> string list" where
  "trailing_body stamp s1 s2 =
    [''\"environment_sensor_set_reading\": {'',
     ''\"timestamp\": \"'' @ stamp @ ''\",'',
     ''\"spectrometer\": {'',
     ''\"maxFixedIntensity\": \"16383\",'',
     ''\"integration time in ?s\": \"5000\",'',
     ''\"bands\": ['',
     ''{'',
     ''\"wavelength\": 500.00,'',
     ''\"spectrum\": '' @ s1,
     ''},'',
     ''{'',
     ''\"wavelength\": 600.00,'',
     ''\"spectrum\": '' @ s2,
     ''}'',
     '']'',
     ''},'',
     ''\"temperature\": {'',
     ''\"value\": \"20.5\",'',
     ''\"unit\": \"DegCelsius\",'',
     ''\"rawValue\": \"2050\"'',
     ''}'',
     ''}'']"

definition trailing_bodies :: "string list list" where
  "trailing_bodies =
    [trailing_body ''2016.04.07-12:00:07'' ''0.100'' ''0.200'',
     trailing_body ''2016.04.07-12:00:12'' ''0.300'' ''0.400'']"

definition trailing_log :: string where
  "trailing_log = log_text trailing_bodies"


text \<open>
  A stand-in for \<open>int\<close> in the closed examples: a string of decimal digits with an
  optional sign, a number (truncated towards zero) or a boolean.
\<close>

definition decimal_int :: "json \<Rightarrow> py_error + rat" where
  "decimal_int x =
     (case x of
        JString s \<Rightarrow>
          (let t = rev (dropWhile (\<lambda>c. c = CHR '' '') (rev (dropWhile (\<lambda>c. c = CHR '' '') s)));
               neg = (t \<noteq> [] \<and> hd t = CHR ''-'');
               u = (if t \<noteq> [] \<and> (hd t = CHR ''-'' \<or> hd t = CHR ''+'') then tl t else t)
           in if u = [] then Inl (ValueError InvalidLiteral)
              else (case digits_value 0 u of
                      None \<Rightarrow> Inl (ValueError InvalidLiteral)
                    | Some n \<Rightarrow> Inr ((if neg then - 1 else 1) * of_int n)))
      | JNumber r \<Rightarrow> Inr (of_int (if 0 \<le> r then \<lfloor>r\<rfloor> else \<lceil>r\<rceil>))
      | JBool b \<Rightarrow> Inr (if b then 1 else 0)
      | _ \<Rightarrow> Inl TypeError)"

text \<open>
  Reading records as \<open>json.loads\<close> returns them: a timestamp, a temperature descriptor
  and a spectrometer sub-object.
\<close>

definition temperature :: "string \<Rightarrow> string \<Rightarrow> string \<Rightarrow> (string \<times> json) list" where
  "temperature val unit raw =
     [(''value'', JString val), (''unit'', JString unit), (''rawValue'', JString raw)]"

definition spectrometer :: json where
  "spectrometer =
     JObject [(''maxFixedIntensity'', JString ''16383''),
              (''integration time in ?s'', JString ''5000''),
              (''bands'',
                 JArray [JObject [(''wavelength'', JNumber 500), (''spectrum'', JNumber (1 / 10))],
                         JObject [(''wavelength'', JNumber 600), (''spectrum'', JNumber (1 / 5))]])]"

definition reading_body :: "string \<Rightarrow> string \<Rightarrow> string \<Rightarrow> string \<Rightarrow> json" where
  "reading_body stamp val unit raw =
     JObject [(''timestamp'', JString stamp),
              (''temperature'', JObject (temperature val unit raw)),
              (''spectrometer'', spectrometer)]"

definition reading :: "string \<Rightarrow> string \<Rightarrow> string \<Rightarrow> string \<Rightarrow> json" where
  "reading stamp val unit raw =
     JObject [(''environment_sensor_set_reading'', reading_body stamp val unit raw)]"

definition readings2 :: "json list" where
  "readings2 =
     [reading ''2016.04.07-12:00:07'' ''21.5'' ''DegCelsius'' ''3000'',
      reading ''2016.04.07-12:00:12'' ''21.6'' ''DegCelsius'' ''3001'']"

definition bodies2 :: "json list" where
  "bodies2 =
     [reading_body ''2016.04.07-12:00:07'' ''21.5'' ''DegCelsius'' ''3000'',
      reading_body ''2016.04.07-12:00:12'' ''21.6'' ''DegCelsius'' ''3001'']"

definition kelvin_readings :: "json list" where
  "kelvin_readings = [reading ''2016.04.07-12:00:07'' ''294.6'' ''Kelvin'' ''3000'']"

text \<open>The container the builder writes for \<open>readings2\<close>, before the provenance attribute.\<close>

definition container2_open :: "rat dataset" where
  "container2_open =
     \<lparr>file_path = ''out.nc'',
      dimensions = [(''time'', None), (''wavelength'', Some 2)],
      variables =
        [\<lparr>var_name = ''time'', var_type = NC_STR, var_dims = [''time''],
           var_data = Strings [JString ''2016.04.07-12:00:07'', JString ''2016.04.07-12:00:12''],
           var_units = None\<rparr>,
         \<lparr>var_name = ''timestamp'', var_type = NC_STR, var_dims = [],
           var_data = Strings [JString ''2016.04.07-12:00:07''], var_units = None\<rparr>,
         \<lparr>var_name = ''temperature'', var_type = NC_F4, var_dims = [''time''],
           var_data = Numbers [43 / 2, 108 / 5], var_units = Some ''Celsius''\<rparr>,
         \<lparr>var_name = ''temperature_rawValue'', var_type = NC_F4, var_dims = [''time''],
           var_data = Numbers [3000, 3001], var_units = None\<rparr>,
         \<lparr>var_name = ''Spectrometer_maxFixedIntensity'', var_type = NC_F4,
           var_dims = [''time''], var_data = Numbers [16383, 16383], var_units = None\<rparr>,
         \<lparr>var_name = ''Spectrometer_Integration_Time_In_Microseconds'', var_type = NC_F4,
           var_dims = [''time''], var_data = Numbers [5000, 5000], var_units = None\<rparr>,
         \<lparr>var_name = ''wavelength'', var_type = NC_F4, var_dims = [''wavelength''],
           var_data = Numbers [500, 600], var_units = None\<rparr>,
         \<lparr>var_name = ''spectrum'', var_type = NC_F4, var_dims = [''time'', ''wavelength''],
           var_data = Matrix [[1 / 10, 1 / 5], [3 / 10, 2 / 5]], var_units = None\<rparr>],
      history = None, is_closed = False\<rparr>"

definition container2 :: "rat dataset" where
  "container2 =
     container2_open\<lparr>history := Some ''Thu Apr 07 12:00:30 2016: python in.json out'',
                     is_closed := True\<rparr>"

text \<open>The container left behind when the unit \<open>Kelvin\<close> is looked up.\<close>

definition kelvin_container :: "rat dataset" where
  "kelvin_container =
     \<lparr>file_path = ''out.nc'',
      dimensions = [(''time'', None)],
      variables =
        [\<lparr>var_name = ''time'', var_type = NC_STR, var_dims = [''time''],
           var_data = Strings [JString ''2016.04.07-12:00:07''], var_units = None\<rparr>,
         \<lparr>var_name = ''timestamp'', var_type = NC_STR, var_dims = [],
           var_data = Strings [JString ''2016.04.07-12:00:07''], var_units = None\<rparr>,
         \<lparr>var_name = ''temperature'', var_type = NC_F4, var_dims = [''time''],
           var_data = Numbers [1473 / 5], var_units = None\<rparr>],
      history = None, is_closed = False\<rparr>"


section \<open>Lemmas about the repairer\<close>

lemma ebind_Inr_iff: "ebind m g = Inr y \<longleftrightarrow> (\<exists>a. m = Inr a \<and> g a = Inr y)"
  by (cases m) (simp_all add: ebind_def)

lemma ebind_Inl_iff: "ebind m g = Inl e \<longleftrightarrow> m = Inl e \<or> (\<exists>a. m = Inr a \<and> g a = Inl e)"
  by (cases m) (simp_all add: ebind_def)

lemma scan_loop_append:
  "scan_loop f ls (xs @ ys) st = ebind (scan_loop f ls xs st) (scan_loop f ls ys)"
proof (induction xs arbitrary: st)
  case Nil
  show ?case by (simp add: ebind_def)
next
  case (Cons x xs)
  show ?case
    by (cases "scan_line f ls x st") (simp_all add: ebind_def Cons.IH)
qed

lemma scan_line_Inr:
  assumes "scan_line f ls i st = Inr st'"
  obtains st1 st2 where "take_wavelength f ls i (mark_boundary ls i st) = Inr st1"
    and "new_slots ls i st1 = Inr st2" and "take_spectrum f ls i st2 = Inr st'"
  using assms unfolding scan_line_def ebind_Inr_iff by blast

lemma append_value_Inr:
  "append_value f l acc j = Inr acc' \<longleftrightarrow>
     j < length acc \<and> (\<exists>v. f (numeric_text l) = Some v \<and> acc' = acc[j := acc ! j @ [v]])"
  by (auto simp: append_value_def split: option.splits)

lemma take_wavelength_Inr:
  "take_wavelength f ls i st = Inr st' \<longleftrightarrow>
     (if str_in ''wavelength'' (ls ! i)
      then idx_j st < length (wavelengthList st) \<and>
           (\<exists>v. f (numeric_text (ls ! i)) = Some v \<and>
                st' = st\<lparr>wavelengthList := (wavelengthList st)[idx_j st := wavelengthList st ! idx_j st @ [v]]\<rparr>)
      else st' = st)"
  by (auto simp: take_wavelength_def ebind_Inr_iff append_value_Inr)

lemma take_spectrum_Inr:
  "take_spectrum f ls i st = Inr st' \<longleftrightarrow>
     (if str_in ''spectrum'' (ls ! i)
      then idx_k st < length (spectrumList st) \<and>
           (\<exists>v. f (numeric_text (ls ! i)) = Some v \<and>
                st' = st\<lparr>spectrumList := (spectrumList st)[idx_k st := spectrumList st ! idx_k st @ [v]]\<rparr>)
      else st' = st)"
  by (auto simp: take_spectrum_def ebind_Inr_iff append_value_Inr)

lemma new_slots_Inr:
  "new_slots ls i st = Inr st' \<longleftrightarrow>
     (\<exists>adv. array_end ls i = Inr adv \<and>
        st' = (if adv then st\<lparr>wavelengthList := wavelengthList st @ [[]], idx_j := idx_j st + 1,
                               spectrumList := spectrumList st @ [[]], idx_k := idx_k st + 1\<rparr>
               else st))"
  by (auto simp: new_slots_def ebind_Inr_iff)


lemma lockstep_init: "lockstep scan_init"
  by (simp add: lockstep_def scan_init_def)

lemma mark_boundary_fields [simp]:
  "wavelengthList (mark_boundary ls i st) = wavelengthList st"
  "spectrumList (mark_boundary ls i st) = spectrumList st"
  "idx_j (mark_boundary ls i st) = idx_j st"
  "idx_k (mark_boundary ls i st) = idx_k st"
  "linePosition (mark_boundary ls i st) =
     linePosition st @ (if str_in marker (ls ! i) \<and> 2 < i then [i - 1] else [])"
  by (simp_all add: mark_boundary_def)

lemma mark_boundary_lockstep [simp]: "lockstep (mark_boundary ls i st) = lockstep st"
  by (simp add: lockstep_def)

lemma take_wavelength_lockstep:
  "take_wavelength f ls i st = Inr st' \<Longrightarrow> lockstep st \<Longrightarrow> lockstep st'"
  by (auto simp: take_wavelength_Inr lockstep_def split: if_splits)

lemma take_spectrum_lockstep:
  "take_spectrum f ls i st = Inr st' \<Longrightarrow> lockstep st \<Longrightarrow> lockstep st'"
  by (auto simp: take_spectrum_Inr lockstep_def split: if_splits)

lemma new_slots_lockstep:
  "new_slots ls i st = Inr st' \<Longrightarrow> lockstep st \<Longrightarrow> lockstep st'"
  by (auto simp: new_slots_Inr lockstep_def split: if_splits)

lemma scan_line_lockstep:
  assumes "scan_line f ls i st = Inr st'" "lockstep st"
  shows "lockstep st'"
proof -
  from assms(1) obtain st1 st2 where
    1: "take_wavelength f ls i (mark_boundary ls i st) = Inr st1"
    and 2: "new_slots ls i st1 = Inr st2" and 3: "take_spectrum f ls i st2 = Inr st'"
    by (rule scan_line_Inr)
  have "lockstep st1" using take_wavelength_lockstep[OF 1] assms(2) by simp
  then have "lockstep st2" by (rule new_slots_lockstep[OF 2])
  then show ?thesis by (rule take_spectrum_lockstep[OF 3])
qed

text \<open>An invariant of the loop body is an invariant of the loop.\<close>

lemma scan_loop_invariant:
  assumes "scan_loop f ls is st = Inr st'" and "P st"
    and "\<And>i s s'. i \<in> set is \<Longrightarrow> P s \<Longrightarrow> scan_line f ls i s = Inr s' \<Longrightarrow> P s'"
  shows "P st'"
  using assms
proof (induction "is" arbitrary: st)
  case Nil
  then show ?case by simp
next
  case (Cons i "is")
  from Cons.prems(1) obtain st1 where
    1: "scan_line f ls i st = Inr st1" and 2: "scan_loop f ls is st1 = Inr st'"
    by (auto simp: ebind_Inr_iff)
  have "P st1" using Cons.prems(3)[OF _ Cons.prems(2) 1] by simp
  moreover have "\<And>j s s'. j \<in> set is \<Longrightarrow> P s \<Longrightarrow> scan_line f ls j s = Inr s' \<Longrightarrow> P s'"
    using Cons.prems(3) by (meson list.set_intros(2))
  ultimately show ?case
    by (rule Cons.IH[OF 2])
qed

lemma scan_loop_lockstep:
  "scan_loop f ls is st = Inr st' \<Longrightarrow> lockstep st \<Longrightarrow> lockstep st'"
  by (erule scan_loop_invariant) (auto intro: scan_line_lockstep)

lemma scan_lockstep: "scan f ls = Inr st \<Longrightarrow> lockstep st"
  unfolding scan_def by (rule scan_loop_lockstep[OF _ lockstep_init])

lemma formatting_Inr:
  assumes "formattingTheJSONFileAndReturnWavelengthAndSpectrum f content = Inr (w, s, c')"
  obtains st stitched wrapped where "scan f (split_nl content) = Inr st"
     and "[] \<in> set (wavelengthList st)" and "w = remove1 [] (wavelengthList st)"
     and "[] \<in> set (spectrumList st)" and "s = remove1 [] (spectrumList st)"
     and "stitch (split_nl content) (linePosition st) = Inr stitched"
     and "wrap_brackets stitched = Inr wrapped" and "c' = join_nl wrapped"
proof -
  from assms obtain st wl sp stitched wrapped where
    1: "scan f (split_nl content) = Inr st"
    and 2: "py_remove [] (wavelengthList st) = Inr wl"
    and 3: "py_remove [] (spectrumList st) = Inr sp"
    and 4: "stitch (split_nl content) (linePosition st) = Inr stitched"
    and 5: "wrap_brackets stitched = Inr wrapped"
    and 6: "(wl, sp, join_nl wrapped) = (w, s, c')"
    unfolding formattingTheJSONFileAndReturnWavelengthAndSpectrum_def Let_def ebind_Inr_iff
    by blast
  from 2 have "[] \<in> set (wavelengthList st)" "wl = remove1 [] (wavelengthList st)"
    by (auto simp: py_remove_def split: if_splits)
  moreover from 3 have "[] \<in> set (spectrumList st)" "sp = remove1 [] (spectrumList st)"
    by (auto simp: py_remove_def split: if_splits)
  ultimately show ?thesis using that 1 4 5 6 by simp
qed

subsection \<open>Lines and content\<close>

lemma split_nl_not_Nil [simp]: "split_nl s \<noteq> []"
  by (induction s) (auto split: list.splits)

lemma split_nl_no_newline: "l \<in> set (split_nl s) \<Longrightarrow> CHR 0x0A \<notin> set l"
proof (induction s arbitrary: l)
  case Nil
  then show ?case by simp
next
  case (Cons c s)
  show ?case
  proof (cases "c = CHR 0x0A")
    case True
    with Cons show ?thesis by auto
  next
    case False
    obtain h t where ht: "split_nl s = h # t"
      using split_nl_not_Nil[of s] by (cases "split_nl s") auto
    with Cons False show ?thesis by auto
  qed
qed

lemma split_nl_line: "CHR 0x0A \<notin> set l \<Longrightarrow> split_nl l = [l]"
  by (induction l) auto

lemma split_nl_append:
  "CHR 0x0A \<notin> set l \<Longrightarrow> split_nl (l @ CHR 0x0A # s) = l # split_nl s"
  by (induction l) auto

lemma split_join:
  "ls \<noteq> [] \<Longrightarrow> (\<forall>l\<in>set ls. CHR 0x0A \<notin> set l) \<Longrightarrow> split_nl (join_nl ls) = ls"
proof (induction ls rule: join_nl.induct)
  case 1
  then show ?case by simp
next
  case (2 l)
  then show ?case by (simp add: split_nl_line)
next
  case (3 l l' ls)
  then show ?case by (simp add: split_nl_append)
qed

subsection \<open>The boundary list\<close>

lemma take_wavelength_linePosition:
  "take_wavelength f ls i st = Inr st' \<Longrightarrow> linePosition st' = linePosition st"
  by (auto simp: take_wavelength_Inr split: if_splits)

lemma take_spectrum_linePosition:
  "take_spectrum f ls i st = Inr st' \<Longrightarrow> linePosition st' = linePosition st"
  by (auto simp: take_spectrum_Inr split: if_splits)

lemma new_slots_linePosition:
  "new_slots ls i st = Inr st' \<Longrightarrow> linePosition st' = linePosition st"
  by (auto simp: new_slots_Inr split: if_splits)

lemma scan_line_linePosition:
  assumes "scan_line f ls i st = Inr st'"
  shows "linePosition st' =
    linePosition st @ (if str_in marker (ls ! i) \<and> 2 < i then [i - 1] else [])"
proof -
  from assms obtain st1 st2 where
    1: "take_wavelength f ls i (mark_boundary ls i st) = Inr st1"
    and 2: "new_slots ls i st1 = Inr st2" and 3: "take_spectrum f ls i st2 = Inr st'"
    by (rule scan_line_Inr)
  show ?thesis
    using take_wavelength_linePosition[OF 1] new_slots_linePosition[OF 2]
      take_spectrum_linePosition[OF 3] by simp
qed

lemma scan_loop_linePosition:
  "scan_loop f ls is st = Inr st' \<Longrightarrow>
   linePosition st' =
     linePosition st @ map (\<lambda>i. i - 1) (filter (\<lambda>i. str_in marker (ls ! i) \<and> 2 < i) is)"
proof (induction "is" arbitrary: st)
  case Nil
  then show ?case by simp
next
  case (Cons i "is")
  from Cons.prems obtain st1 where
    1: "scan_line f ls i st = Inr st1" and 2: "scan_loop f ls is st1 = Inr st'"
    by (auto simp: ebind_Inr_iff)
  show ?case
    using Cons.IH[OF 2] scan_line_linePosition[OF 1] by simp
qed

lemma scan_linePosition:
  assumes "scan f ls = Inr st"
  shows "linePosition st =
     map (\<lambda>i. i - 1) (filter (\<lambda>i. str_in marker (ls ! i) \<and> 2 < i) [0..<length ls])"
  using scan_loop_linePosition[OF assms[unfolded scan_def]] by (simp add: scan_init_def)

subsection \<open>Stitching\<close>

lemma del_insert:
  "p < length xs \<Longrightarrow> ebind (py_del xs p) (\<lambda>t. g (py_insert t p x)) = g (xs[p := x])"
  by (simp add: py_del_def py_insert_def ebind_def upd_conv_take_nth_drop min_def)

lemma stitch_fold:
  "(\<forall>p\<in>set ps. p < length ls) \<Longrightarrow>
   stitch ls ps = Inr (fold (\<lambda>p t. t[p := ''},{'']) ps ls)"
proof (induction ps arbitrary: ls)
  case Nil
  then show ?case by simp
next
  case (Cons p ps)
  have "stitch (ls[p := ''},{'']) ps = Inr (fold (\<lambda>p t. t[p := ''},{'']) ps (ls[p := ''},{'']))"
    using Cons.prems by (intro Cons.IH) simp
  moreover have "ebind (py_del ls p) (\<lambda>t. stitch (py_insert t p ''},{'') ps)
      = stitch (ls[p := ''},{'']) ps"
    using del_insert[of p ls "\<lambda>t. stitch t ps" "''},{''"] Cons.prems by simp
  ultimately show ?case by simp
qed

lemma length_fold_update [simp]: "length (fold (\<lambda>p t. t[p := x]) ps ls) = length ls"
  by (induction ps arbitrary: ls) auto

lemma nth_fold_update:
  "q < length ls \<Longrightarrow> fold (\<lambda>p t. t[p := x]) ps ls ! q = (if q \<in> set ps then x else ls ! q)"
proof (induction ps arbitrary: ls)
  case Nil
  then show ?case by simp
next
  case (Cons p ps)
  show ?case
  proof (cases "q \<in> set ps")
    case True
    then show ?thesis using Cons.IH[of "ls[p := x]"] Cons.prems by simp
  next
    case False
    then show ?thesis using Cons.IH[of "ls[p := x]"] Cons.prems by (auto simp: nth_list_update)
  qed
qed

lemma boundary_positions:
  "p \<in> set (map (\<lambda>i. i - 1) (filter (\<lambda>i. str_in marker (ls ! i) \<and> 2 < i) [0..<length ls]))
     \<longleftrightarrow> boundary ls p"
proof
  assume "p \<in> set (map (\<lambda>i. i - 1) (filter (\<lambda>i. str_in marker (ls ! i) \<and> 2 < i) [0..<length ls]))"
  then obtain i where "i < length ls" "str_in marker (ls ! i)" "2 < i" "p = i - 1"
    by auto
  then show "boundary ls p" by (simp add: boundary_def)
next
  assume b: "boundary ls p"
  then have "Suc p \<in> set (filter (\<lambda>i. str_in marker (ls ! i) \<and> 2 < i) [0..<length ls])"
    by (simp add: boundary_def)
  then have "Suc p - 1 \<in> (\<lambda>i. i - 1) ` set (filter (\<lambda>i. str_in marker (ls ! i) \<and> 2 < i) [0..<length ls])"
    by (rule imageI)
  then show "p \<in> set (map (\<lambda>i. i - 1) (filter (\<lambda>i. str_in marker (ls ! i) \<and> 2 < i) [0..<length ls]))"
    by simp
qed

lemma scan_stitch:
  assumes "scan f ls = Inr st"
  shows "stitch ls (linePosition st) = Inr (stitched_lines ls)"
proof -
  let ?ps = "linePosition st"
  have ps: "?ps = map (\<lambda>i. i - 1) (filter (\<lambda>i. str_in marker (ls ! i) \<and> 2 < i) [0..<length ls])"
    by (rule scan_linePosition[OF assms])
  have mem: "\<And>p. p \<in> set ?ps \<longleftrightarrow> boundary ls p"
    unfolding ps by (rule boundary_positions)
  have bound: "\<forall>p\<in>set ?ps. p < length ls"
    using mem by (auto simp: boundary_def)
  have "fold (\<lambda>p t. t[p := ''},{'']) ?ps ls = stitched_lines ls"
    by (rule nth_equalityI) (simp_all add: stitched_lines_def nth_fold_update mem)
  then show ?thesis using stitch_fold[OF bound] by simp
qed

lemma wrap_brackets_cases:
  assumes "ls \<noteq> []"
  shows "wrap_brackets ls =
    Inr (if \<not> str_in ''['' (hd ls) \<and> \<not> str_in '']'' (last ls) then ''['' # ls @ ['']''] else ls)"
proof -
  have 0: "py_index ls 0 = Inr (hd ls)"
    using assms by (cases ls) (simp_all add: py_index_def)
  have "nat (int (length ls) - 1) = length ls - 1" by simp
  then have 1: "py_index ls (- 1) = Inr (last ls)"
    using assms by (simp add: py_index_def last_conv_nth Let_def)
  show ?thesis
    by (simp add: wrap_brackets_def 0 1 ebind_def py_insert_def)
qed

subsection \<open>The slice of a line\<close>

lemma find_chr_first:
  "c \<notin> set a \<Longrightarrow> find_chr c (a @ c # b) = int (length a)"
  by (induction a) (auto simp: find_chr_def)

lemma numeric_text_colon:
  assumes "CHR '':'' \<notin> set a"
  shows "numeric_text (a @ CHR '':'' # b) = take (length b - 2) b"
proof -
  let ?l = "a @ CHR '':'' # b"
  have lo: "slice_bound (find_chr CHR '':'' ?l + 1) (length ?l) = Suc (length a)"
    using assms by (simp add: slice_bound_def find_chr_first)
  have hi: "slice_bound (- 2) (length ?l) = Suc (length a) + length b - 2"
    by (auto simp: slice_bound_def max_def)
  have "drop (Suc (length a)) (take (Suc (length a) + length b - 2) ?l) = take (length b - 2) b"
  proof (cases "2 \<le> length b")
    case True
    then have "Suc (length a) + length b - 2 = length (a @ [CHR '':'']) + (length b - 2)"
      by simp
    moreover have "?l = (a @ [CHR '':'']) @ b" by simp
    ultimately have "take (Suc (length a) + length b - 2) ?l = (a @ [CHR '':'']) @ take (length b - 2) b"
      by (simp only: take_append) simp
    then show ?thesis by simp
  next
    case False
    then show ?thesis by simp
  qed
  then show ?thesis
    unfolding numeric_text_def py_slice_def lo hi .
qed

lemma numeric_text_no_colon:
  assumes "CHR '':'' \<notin> set l"
  shows "numeric_text l = take (length l - 2) l"
proof -
  have "slice_bound (- 2) (length l) = length l - 2"
    by (auto simp: slice_bound_def max_def)
  then show ?thesis
    using assms by (simp add: numeric_text_def py_slice_def find_chr_def slice_bound_def)
qed

subsection \<open>The values collected\<close>

lemma concat_update_last:
  assumes "Suc j = length acc"
  shows "concat (acc[j := acc ! j @ [v]]) = concat acc @ [v]"
proof -
  from assms have ne: "acc \<noteq> []" by auto
  then have acc: "acc = butlast acc @ [last acc]" by simp
  have j: "j = length (butlast acc)" using assms by simp
  have "acc ! j = last acc" using assms[symmetric] ne by (simp add: last_conv_nth)
  moreover have "acc[j := x] = butlast acc @ [x]" for x
    by (subst acc, subst j) (simp only: list_update_length)
  ultimately have "concat (acc[j := acc ! j @ [v]]) = concat (butlast acc) @ last acc @ [v]"
    by simp
  also have "\<dots> = concat (butlast acc @ [last acc]) @ [v]" by simp
  finally show ?thesis using acc by simp
qed

lemma take_wavelength_values:
  assumes "take_wavelength f ls i st = Inr st'" "lockstep st"
  shows "concat (wavelengthList st') = concat (wavelengthList st) @ wl_value f (ls ! i)"
    and "spectrumList st' = spectrumList st"
    and "str_in ''wavelength'' (ls ! i) \<Longrightarrow> f (numeric_text (ls ! i)) \<noteq> None"
proof -
  have "concat (wavelengthList st') = concat (wavelengthList st) @ wl_value f (ls ! i)
    \<and> spectrumList st' = spectrumList st
    \<and> (str_in ''wavelength'' (ls ! i) \<longrightarrow> f (numeric_text (ls ! i)) \<noteq> None)"
  proof (cases "str_in ''wavelength'' (ls ! i)")
    case True
    with assms(1) obtain v where v: "f (numeric_text (ls ! i)) = Some v"
      and st': "st' = st\<lparr>wavelengthList :=
          (wavelengthList st)[idx_j st := wavelengthList st ! idx_j st @ [v]]\<rparr>"
      by (auto simp: take_wavelength_Inr)
    have "Suc (idx_j st) = length (wavelengthList st)"
      using assms(2) by (simp add: lockstep_def)
    from concat_update_last[OF this, of v] show ?thesis
      using v st' True by (simp add: wl_value_def)
  next
    case False
    with assms(1) have "st' = st" by (simp add: take_wavelength_Inr)
    with False show ?thesis by (simp add: wl_value_def)
  qed
  then show "concat (wavelengthList st') = concat (wavelengthList st) @ wl_value f (ls ! i)"
    and "spectrumList st' = spectrumList st"
    and "str_in ''wavelength'' (ls ! i) \<Longrightarrow> f (numeric_text (ls ! i)) \<noteq> None"
    by simp_all
qed

lemma take_spectrum_values:
  assumes "take_spectrum f ls i st = Inr st'" "lockstep st"
  shows "concat (spectrumList st') = concat (spectrumList st) @ sp_value f (ls ! i)"
    and "wavelengthList st' = wavelengthList st"
    and "str_in ''spectrum'' (ls ! i) \<Longrightarrow> f (numeric_text (ls ! i)) \<noteq> None"
proof -
  have "concat (spectrumList st') = concat (spectrumList st) @ sp_value f (ls ! i)
    \<and> wavelengthList st' = wavelengthList st
    \<and> (str_in ''spectrum'' (ls ! i) \<longrightarrow> f (numeric_text (ls ! i)) \<noteq> None)"
  proof (cases "str_in ''spectrum'' (ls ! i)")
    case True
    with assms(1) obtain v where v: "f (numeric_text (ls ! i)) = Some v"
      and st': "st' = st\<lparr>spectrumList :=
          (spectrumList st)[idx_k st := spectrumList st ! idx_k st @ [v]]\<rparr>"
      by (auto simp: take_spectrum_Inr)
    have "Suc (idx_k st) = length (spectrumList st)"
      using assms(2) by (simp add: lockstep_def)
    from concat_update_last[OF this, of v] show ?thesis
      using v st' True by (simp add: sp_value_def)
  next
    case False
    with assms(1) have "st' = st" by (simp add: take_spectrum_Inr)
    with False show ?thesis by (simp add: sp_value_def)
  qed
  then show "concat (spectrumList st') = concat (spectrumList st) @ sp_value f (ls ! i)"
    and "wavelengthList st' = wavelengthList st"
    and "str_in ''spectrum'' (ls ! i) \<Longrightarrow> f (numeric_text (ls ! i)) \<noteq> None"
    by simp_all
qed

lemma new_slots_values:
  assumes "new_slots ls i st = Inr st'"
  shows "concat (wavelengthList st') = concat (wavelengthList st)"
    and "concat (spectrumList st') = concat (spectrumList st)"
proof -
  from assms obtain adv where
    "st' = (if adv then st\<lparr>wavelengthList := wavelengthList st @ [[]], idx_j := idx_j st + 1,
                               spectrumList := spectrumList st @ [[]], idx_k := idx_k st + 1\<rparr>
               else st)"
    by (auto simp: new_slots_Inr)
  then show "concat (wavelengthList st') = concat (wavelengthList st)"
    and "concat (spectrumList st') = concat (spectrumList st)"
    by (cases adv; simp)+
qed

lemma scan_line_values:
  assumes "scan_line f ls i st = Inr st'" "lockstep st"
  shows "concat (wavelengthList st') = concat (wavelengthList st) @ wl_value f (ls ! i)"
    and "concat (spectrumList st') = concat (spectrumList st) @ sp_value f (ls ! i)"
    and "str_in ''wavelength'' (ls ! i) \<or> str_in ''spectrum'' (ls ! i)
           \<Longrightarrow> f (numeric_text (ls ! i)) \<noteq> None"
proof -
  from assms(1) obtain st1 st2 where
    1: "take_wavelength f ls i (mark_boundary ls i st) = Inr st1"
    and 2: "new_slots ls i st1 = Inr st2" and 3: "take_spectrum f ls i st2 = Inr st'"
    by (rule scan_line_Inr)
  have l0: "lockstep (mark_boundary ls i st)" using assms(2) by simp
  have l1: "lockstep st1" by (rule take_wavelength_lockstep[OF 1 l0])
  have l2: "lockstep st2" by (rule new_slots_lockstep[OF 2 l1])
  note a = take_wavelength_values[OF 1 l0]
  note b = new_slots_values[OF 2]
  note c = take_spectrum_values[OF 3 l2]
  show "concat (wavelengthList st') = concat (wavelengthList st) @ wl_value f (ls ! i)"
    using a(1) b(1) c(2) by simp
  show "concat (spectrumList st') = concat (spectrumList st) @ sp_value f (ls ! i)"
    using a(2) b(2) c(1) by simp
  show "str_in ''wavelength'' (ls ! i) \<or> str_in ''spectrum'' (ls ! i)
           \<Longrightarrow> f (numeric_text (ls ! i)) \<noteq> None"
    using a(3) c(3) by blast
qed

lemma scan_loop_values:
  "scan_loop f ls is st = Inr st' \<Longrightarrow> lockstep st \<Longrightarrow>
   concat (wavelengthList st') = concat (wavelengthList st) @ concat (map (\<lambda>i. wl_value f (ls ! i)) is)
   \<and> concat (spectrumList st') = concat (spectrumList st) @ concat (map (\<lambda>i. sp_value f (ls ! i)) is)
   \<and> (\<forall>i\<in>set is. str_in ''wavelength'' (ls ! i) \<or> str_in ''spectrum'' (ls ! i)
         \<longrightarrow> f (numeric_text (ls ! i)) \<noteq> None)"
proof (induction "is" arbitrary: st)
  case Nil
  then show ?case by simp
next
  case (Cons i "is")
  from Cons.prems(1) obtain st1 where
    1: "scan_line f ls i st = Inr st1" and 2: "scan_loop f ls is st1 = Inr st'"
    by (auto simp: ebind_Inr_iff)
  have l1: "lockstep st1" by (rule scan_line_lockstep[OF 1 Cons.prems(2)])
  note v = scan_line_values[OF 1 Cons.prems(2)]
  from Cons.IH[OF 2 l1] v show ?case by simp
qed

lemma map_index_lines: "map (\<lambda>i. g (ls ! i)) [0..<length ls] = map g ls"
  by (rule nth_equalityI) simp_all

lemma scan_values:
  assumes "scan f ls = Inr st"
  shows "concat (wavelengthList st) = concat (map (wl_value f) ls)"
    and "concat (spectrumList st) = concat (map (sp_value f) ls)"
    and "\<forall>i<length ls. str_in ''wavelength'' (ls ! i) \<or> str_in ''spectrum'' (ls ! i)
         \<longrightarrow> f (numeric_text (ls ! i)) \<noteq> None"
  using scan_loop_values[OF assms[unfolded scan_def] lockstep_init]
  by (simp_all add: scan_init_def map_index_lines)

lemma concat_remove1_Nil: "concat (remove1 [] xs) = concat xs"
  by (induction xs) auto

subsection \<open>Which exceptions the loop can raise\<close>

lemma array_end_total:
  assumes "i < length ls" "4 \<le> length ls"
  shows "\<exists>b. array_end ls i = Inr b"
proof -
  have "\<exists>x. py_index ls (int i - 4) = Inr x"
    using assms by (auto simp: py_index_def Let_def)
  then show ?thesis by (auto simp: array_end_def ebind_def)
qed

lemma append_value_Inl:
  "append_value f l acc j = Inl e \<Longrightarrow> j < length acc \<Longrightarrow> e = ValueError CouldNotConvertToFloat"
  by (auto simp: append_value_def split: option.splits if_splits)

lemma scan_line_Inl:
  assumes "scan_line f ls i st = Inl e" "lockstep st" "i < length ls" "4 \<le> length ls"
  shows "e = ValueError CouldNotConvertToFloat"
proof -
  let ?st0 = "mark_boundary ls i st"
  show ?thesis
  proof (cases "take_wavelength f ls i ?st0")
    case (Inl e1)
    then have "e1 = e" using assms(1) by (simp add: scan_line_def ebind_def)
    moreover have "e1 = ValueError CouldNotConvertToFloat"
      using Inl assms(2)
      by (auto simp: take_wavelength_def ebind_Inl_iff lockstep_def split: if_splits
          dest!: append_value_Inl)
    ultimately show ?thesis by simp
  next
    case (Inr st1)
    have l1: "lockstep st1" using take_wavelength_lockstep[OF Inr] assms(2) by simp
    from array_end_total[OF assms(3,4)] obtain b where b: "array_end ls i = Inr b" by blast
    then obtain st2 where 2: "new_slots ls i st1 = Inr st2"
      by (cases b) (simp_all add: new_slots_def ebind_def)
    have l2: "lockstep st2" by (rule new_slots_lockstep[OF 2 l1])
    have "take_spectrum f ls i st2 = Inl e"
      using assms(1) Inr 2 by (simp add: scan_line_def ebind_def)
    then show ?thesis
      using l2
      by (auto simp: take_spectrum_def ebind_Inl_iff lockstep_def split: if_splits
          dest!: append_value_Inl)
  qed
qed

lemma scan_loop_Inl:
  "scan_loop f ls is st = Inl e \<Longrightarrow> lockstep st \<Longrightarrow> \<forall>i\<in>set is. i < length ls \<Longrightarrow>
   4 \<le> length ls \<Longrightarrow> e = ValueError CouldNotConvertToFloat"
proof (induction "is" arbitrary: st)
  case Nil
  then show ?case by simp
next
  case (Cons i "is")
  show ?case
  proof (cases "scan_line f ls i st")
    case (Inl e1)
    then have "e1 = e" using Cons.prems(1) by (simp add: ebind_def)
    then show ?thesis using scan_line_Inl[OF Inl Cons.prems(2)] Cons.prems(3,4) by simp
  next
    case (Inr st1)
    then have 2: "scan_loop f ls is st1 = Inl e" using Cons.prems(1) by (simp add: ebind_def)
    have l1: "lockstep st1" by (rule scan_line_lockstep[OF Inr Cons.prems(2)])
    show ?thesis using Cons.IH[OF 2 l1] Cons.prems(3,4) by simp
  qed
qed

lemma scan_Inl:
  "scan f ls = Inl e \<Longrightarrow> 4 \<le> length ls \<Longrightarrow> e = ValueError CouldNotConvertToFloat"
  unfolding scan_def by (erule scan_loop_Inl[OF _ lockstep_init]) auto

lemma formatting_scan_Inl:
  "scan f (split_nl content) = Inl e \<Longrightarrow>
   formattingTheJSONFileAndReturnWavelengthAndSpectrum f content = Inl e"
  by (simp add: formattingTheJSONFileAndReturnWavelengthAndSpectrum_def ebind_def)

lemma values_Some:
  "\<forall>l\<in>set ls. P l \<longrightarrow> f (g l) \<noteq> None \<Longrightarrow>
   map Some (concat (map (\<lambda>l. if P l then [the (f (g l))] else []) ls))
     = map (\<lambda>l. f (g l)) (filter P ls)"
  by (induction ls) auto

lemma scan_series:
  assumes "scan f ls = Inr st"
  shows "map Some (concat (wavelengthList st))
           = map (\<lambda>l. f (numeric_text l)) (filter (str_in ''wavelength'') ls)"
    and "map Some (concat (spectrumList st))
           = map (\<lambda>l. f (numeric_text l)) (filter (str_in ''spectrum'') ls)"
proof -
  note v = scan_values[OF assms]
  have ok: "\<forall>l\<in>set ls. str_in ''wavelength'' l \<or> str_in ''spectrum'' l \<longrightarrow> f (numeric_text l) \<noteq> None"
    using v(3) by (auto simp: in_set_conv_nth)
  have "map Some (concat (map (wl_value f) ls))
      = map (\<lambda>l. f (numeric_text l)) (filter (str_in ''wavelength'') ls)"
    unfolding wl_value_def by (rule values_Some) (use ok in blast)
  then show "map Some (concat (wavelengthList st))
           = map (\<lambda>l. f (numeric_text l)) (filter (str_in ''wavelength'') ls)"
    using v(1) by simp
  have "map Some (concat (map (sp_value f) ls))
      = map (\<lambda>l. f (numeric_text l)) (filter (str_in ''spectrum'') ls)"
    unfolding sp_value_def by (rule values_Some) (use ok in blast)
  then show "map Some (concat (spectrumList st))
           = map (\<lambda>l. f (numeric_text l)) (filter (str_in ''spectrum'') ls)"
    using v(2) by simp
qed

subsection \<open>How many slots\<close>

lemma take_wavelength_idx:
  "take_wavelength f ls i st = Inr st' \<Longrightarrow> idx_j st' = idx_j st"
  by (auto simp: take_wavelength_Inr split: if_splits)

lemma take_spectrum_idx:
  "take_spectrum f ls i st = Inr st' \<Longrightarrow> idx_j st' = idx_j st"
  by (auto simp: take_spectrum_Inr split: if_splits)

lemma new_slots_idx:
  "new_slots ls i st = Inr st' \<Longrightarrow>
   idx_j st' = idx_j st + (if array_end ls i = Inr True then 1 else 0)"
proof -
  assume "new_slots ls i st = Inr st'"
  then obtain adv where a: "array_end ls i = Inr adv"
    and "st' = (if adv then st\<lparr>wavelengthList := wavelengthList st @ [[]], idx_j := idx_j st + 1,
                               spectrumList := spectrumList st @ [[]], idx_k := idx_k st + 1\<rparr>
               else st)"
    by (auto simp: new_slots_Inr)
  then show ?thesis by (cases adv) simp_all
qed

lemma scan_line_idx:
  assumes "scan_line f ls i st = Inr st'"
  shows "idx_j st' = idx_j st + (if array_end ls i = Inr True then 1 else 0)"
proof -
  from assms obtain st1 st2 where
    1: "take_wavelength f ls i (mark_boundary ls i st) = Inr st1"
    and 2: "new_slots ls i st1 = Inr st2" and 3: "take_spectrum f ls i st2 = Inr st'"
    by (rule scan_line_Inr)
  show ?thesis
    using take_wavelength_idx[OF 1] new_slots_idx[OF 2] take_spectrum_idx[OF 3] by simp
qed

lemma scan_loop_idx:
  "scan_loop f ls is st = Inr st' \<Longrightarrow>
   idx_j st' = idx_j st + length (filter (\<lambda>i. array_end ls i = Inr True) is)"
proof (induction "is" arbitrary: st)
  case Nil
  then show ?case by simp
next
  case (Cons i "is")
  from Cons.prems obtain st1 where
    1: "scan_line f ls i st = Inr st1" and 2: "scan_loop f ls is st1 = Inr st'"
    by (auto simp: ebind_Inr_iff)
  show ?case
    using Cons.IH[OF 2] scan_line_idx[OF 1] by simp
qed

lemma scan_idx:
  "scan f ls = Inr st \<Longrightarrow>
   idx_j st = length (filter (\<lambda>i. array_end ls i = Inr True) [0..<length ls])"
  using scan_loop_idx[of f ls "[0..<length ls]" scan_init st]
  by (simp add: scan_def scan_init_def)

lemma upt_split: "i < n \<Longrightarrow> [0..<n] = [0..<i] @ i # [Suc i..<n]"
  using upt_add_eq_append[of 0 i "n - i"] upt_conv_Cons[of i n] by simp

section \<open>Lemmas about logs in the expected layout\<close>

subsection \<open>The lines of a log in the expected layout\<close>

lemma split_nl_prefix:
  "CHR 0x0A \<notin> set l \<Longrightarrow> split_nl (l @ rest) = (l @ hd (split_nl rest)) # tl (split_nl rest)"
proof (induction l)
  case Nil
  then show ?case by simp
next
  case (Cons c l)
  then show ?case by auto
qed

lemma split_join_append:
  "xs \<noteq> [] \<Longrightarrow> \<forall>l\<in>set xs. CHR 0x0A \<notin> set l \<Longrightarrow>
   split_nl (join_nl xs @ rest)
     = butlast xs @ (last xs @ hd (split_nl rest)) # tl (split_nl rest)"
proof (induction xs rule: join_nl.induct)
  case 1
  then show ?case by simp
next
  case (2 l)
  then show ?case by (simp add: split_nl_prefix)
next
  case (3 l l' ls)
  then show ?case by (simp add: split_nl_append)
qed

lemma split_log_text:
  assumes "bodies \<noteq> []" "\<forall>body\<in>set bodies. \<forall>l\<in>set body. CHR 0x0A \<notin> set l"
  shows "split_nl (log_text bodies) = joined_lines ''}{'' bodies"
  using assms
proof (induction bodies)
  case Nil
  then show ?case by simp
next
  case (Cons b bs)
  have nl: "\<forall>l\<in>set (''{'' # b @ [''}'']). CHR 0x0A \<notin> set l"
    using Cons.prems(2) by auto
  have step: "split_nl (log_text (b # bs))
      = (''{'' # b) @ (''}'' @ hd (split_nl (log_text bs))) # tl (split_nl (log_text bs))"
    using split_join_append[OF _ nl, of "log_text bs"]
    by (simp add: log_text_def record_text_def butlast_append)
  show ?case
  proof (cases "bs = []")
    case True
    then show ?thesis using step by (simp add: joined_lines_def log_text_def)
  next
    case False
    then have "split_nl (log_text bs) = joined_lines ''}{'' bs"
      using Cons.IH Cons.prems(2) by simp
    then show ?thesis
      using step False by (cases bs) (simp_all add: joined_lines_def)
  qed
qed

subsection \<open>The stitched lines of such a log\<close>

lemma stitched_lines_from: "stitched_lines ls = stitched_from 0 ls"
  by (simp add: stitched_lines_def stitched_from_def boundary_def conj_commute)

lemma stitched_from_single [simp]: "stitched_from i [x] = [x]"
  by (simp add: stitched_from_def)

lemma stitched_from_Cons:
  "stitched_from i (x # y # r)
     = (if 2 < Suc i \<and> str_in marker y then ''},{'' else x) # stitched_from (Suc i) (y # r)"
proof -
  have upt: "[0..<length (x # y # r)] = 0 # map Suc [0..<length (y # r)]"
    by (simp add: upt_conv_Cons map_Suc_upt del: upt_Suc)
  show ?thesis
    unfolding stitched_from_def upt
    by (simp add: comp_def del: upt_Suc)
qed

lemma stitched_from_mark: "2 \<le> i \<Longrightarrow> stitched_from i ls = mark ls"
proof (induction ls arbitrary: i)
  case Nil
  then show ?case by (simp add: stitched_from_def)
next
  case (Cons x ls)
  show ?case
  proof (cases ls)
    case Nil
    then show ?thesis by simp
  next
    case (Cons y r)
    have "stitched_from (Suc i) (y # r) = mark (y # r)"
      using Cons.IH[of "Suc i"] Cons.prems by (simp add: Cons)
    then show ?thesis
      using Cons.prems by (simp add: Cons stitched_from_Cons)
  qed
qed

lemma mark_quiet_head:
  "rest = [] \<or> \<not> str_in marker (hd rest) \<Longrightarrow> mark (h # rest) = h # mark rest"
  by (cases rest) auto

lemma mark_quiet: "\<forall>l\<in>set (tl ls). \<not> str_in marker l \<Longrightarrow> mark ls = ls"
  by (induction ls rule: mark.induct) auto

lemma mark_joint:
  assumes "\<forall>l\<in>set xs. \<not> str_in marker l" "\<not> str_in marker j" "str_in marker h"
  shows "mark (xs @ j # h # t) = xs @ ''},{'' # mark (h # t)"
  using assms(1)
proof (induction xs)
  case Nil
  then show ?case using assms(2,3) by simp
next
  case (Cons x xs)
  have "mark (x # (xs @ j # h # t)) = x # mark (xs @ j # h # t)"
    by (rule mark_quiet_head) (use Cons.prems assms(2) in \<open>cases xs; simp\<close>)
  then show ?case using Cons by simp
qed

lemma quiet_joints: "\<not> str_in marker ''}{''" "\<not> str_in marker ''}''" "\<not> str_in marker ''{''"
  by (simp_all add: marker_def)

lemma mark_bodies:
  assumes "\<forall>body\<in>set bs. body \<noteq> [] \<and> str_in marker (hd body) \<and> (\<forall>l\<in>set (tl body). \<not> str_in marker l)"
    and "\<forall>l\<in>set xs. \<not> str_in marker l"
  shows "mark (xs @ concat (map (\<lambda>body. ''}{'' # body) bs) @ [''}''])
       = xs @ concat (map (\<lambda>body. ''},{'' # body) bs) @ [''}'']"
  using assms
proof (induction bs arbitrary: xs)
  case Nil
  have "mark (xs @ [''}'']) = xs @ [''}'']"
    by (rule mark_quiet) (use Nil.prems(2) quiet_joints in \<open>cases xs; auto\<close>)
  then show ?case by simp
next
  case (Cons b bs)
  from Cons.prems(1) obtain h t where b: "b = h # t" and h: "str_in marker h"
    and t: "\<forall>l\<in>set t. \<not> str_in marker l"
    by (cases b) auto
  let ?rest = "concat (map (\<lambda>body. ''}{'' # body) bs) @ [''}'']"
  let ?rest' = "concat (map (\<lambda>body. ''},{'' # body) bs) @ [''}'']"
  have 1: "mark (xs @ ''}{'' # h # (t @ ?rest)) = xs @ ''},{'' # mark (h # (t @ ?rest))"
    by (rule mark_joint[OF Cons.prems(2) quiet_joints(1) h])
  have 2: "mark (h # (t @ ?rest)) = h # mark (t @ ?rest)"
    by (rule mark_quiet_head) (use t quiet_joints in \<open>cases t; cases bs; auto\<close>)
  have 3: "mark (t @ ?rest) = t @ ?rest'"
    by (rule Cons.IH) (use Cons.prems(1) t in auto)
  show ?case using 1 2 3 by (simp add: b)
qed

lemma stitched_joined:
  assumes "expected_layout bodies"
  shows "stitched_lines (joined_lines ''}{'' bodies) = joined_lines ''},{'' bodies"
proof -
  from assms obtain b bs where bodies: "bodies = b # bs"
    by (cases bodies) (auto simp: expected_layout_def)
  from assms obtain h y t where b: "b = h # y # t" and h: "str_in marker h"
    and yt: "\<forall>l\<in>set (y # t). \<not> str_in marker l"
    unfolding bodies expected_layout_def
    by (cases b; cases "tl b") auto
  have rest: "\<forall>body\<in>set bs. body \<noteq> [] \<and> str_in marker (hd body)
      \<and> (\<forall>l\<in>set (tl body). \<not> str_in marker l)"
    using assms unfolding bodies expected_layout_def by auto
  let ?rest = "concat (map (\<lambda>body. ''}{'' # body) bs) @ [''}'']"
  let ?rest' = "concat (map (\<lambda>body. ''},{'' # body) bs) @ [''}'']"
  have "stitched_lines (''{'' # h # ((y # t) @ ?rest))
      = ''{'' # h # stitched_from 2 ((y # t) @ ?rest)"
    by (simp add: stitched_lines_from stitched_from_Cons numeral_2_eq_2)
  also have "stitched_from 2 ((y # t) @ ?rest) = mark ((y # t) @ ?rest)"
    by (rule stitched_from_mark) simp
  also have "\<dots> = (y # t) @ ?rest'"
    by (rule mark_bodies[OF rest yt])
  finally show ?thesis
    by (simp add: joined_lines_def bodies b)
qed

subsection \<open>The text written back\<close>

lemma join_nl_Cons: "ys \<noteq> [] \<Longrightarrow> join_nl (x # ys) = x @ CHR 0x0A # join_nl ys"
  by (cases ys) simp_all

lemma join_nl_append:
  "xs \<noteq> [] \<Longrightarrow> ys \<noteq> [] \<Longrightarrow> join_nl (xs @ ys) = join_nl xs @ CHR 0x0A # join_nl ys"
  by (induction xs rule: join_nl.induct) (simp_all add: join_nl_Cons)

lemma join_joined:
  assumes "\<forall>body\<in>set (b # bs). body \<noteq> []"
  shows "join_nl (''{'' # b @ concat (map (\<lambda>body. ''},{'' # body) bs) @ [''}''])
       = join_comma (map record_text (b # bs))"
  using assms
proof (induction bs arbitrary: b)
  case Nil
  then show ?case by (simp add: record_text_def)
next
  case (Cons b2 bs)
  let ?T = "concat (map (\<lambda>body. ''},{'' # body) bs) @ [''}'']"
  have b: "b \<noteq> []" "b2 \<noteq> []" using Cons.prems by auto
  have IH: "join_nl (''{'' # b2 @ ?T) = join_comma (map record_text (b2 # bs))"
    by (rule Cons.IH) (use Cons.prems in auto)
  have "join_nl (''{'' # b @ concat (map (\<lambda>body. ''},{'' # body) (b2 # bs)) @ [''}''])
      = join_nl ((''{'' # b) @ (''},{'' # b2 @ ?T))"
    by simp
  also have "\<dots> = join_nl (''{'' # b) @ CHR 0x0A # join_nl (''},{'' # b2 @ ?T)"
    by (rule join_nl_append) simp_all
  also have "join_nl (''},{'' # b2 @ ?T) = ''},{'' @ CHR 0x0A # join_nl (b2 @ ?T)"
    by (rule join_nl_Cons) simp
  finally have lhs: "join_nl (''{'' # b @ concat (map (\<lambda>body. ''},{'' # body) (b2 # bs)) @ [''}''])
      = join_nl (''{'' # b) @ CHR 0x0A # ''},{'' @ CHR 0x0A # join_nl (b2 @ ?T)" .
  have rt: "record_text b = join_nl (''{'' # b) @ CHR 0x0A # ''}''"
    using join_nl_append[of "''{'' # b" "[''}'']"] by (simp add: record_text_def)
  have next_rec: "join_nl (''{'' # b2 @ ?T) = ''{'' @ CHR 0x0A # join_nl (b2 @ ?T)"
    by (rule join_nl_Cons) simp
  have "join_comma (map record_text (b # b2 # bs))
      = record_text b @ '','' @ join_comma (map record_text (b2 # bs))"
    by simp
  also have "\<dots> = (join_nl (''{'' # b) @ CHR 0x0A # ''}'') @ '','' @ (''{'' @ CHR 0x0A # join_nl (b2 @ ?T))"
    unfolding rt IH[symmetric] next_rec ..
  finally show ?case using lhs by simp
qed

lemma repaired_text:
  assumes "expected_layout bodies"
  shows "join_nl (''['' # joined_lines ''},{'' bodies @ ['']'']) = array_text (map record_text bodies)"
proof -
  from assms obtain b bs where bodies: "bodies = b # bs"
    by (cases bodies) (auto simp: expected_layout_def)
  have ne: "\<forall>body\<in>set (b # bs). body \<noteq> []"
    using assms unfolding bodies expected_layout_def by auto
  let ?J = "joined_lines ''},{'' bodies"
  have J: "join_nl ?J = join_comma (map record_text bodies)"
    unfolding bodies joined_lines_def using join_joined[OF ne] by simp
  have "?J \<noteq> []" by (simp add: joined_lines_def)
  then have "join_nl (''['' # ?J @ ['']'']) = ''['' @ CHR 0x0A # join_nl ?J @ CHR 0x0A # '']''"
    by (simp add: join_nl_Cons join_nl_append)
  then show ?thesis
    by (simp add: array_text_def J)
qed

lemma wrap_joined:
  "wrap_brackets (joined_lines j bodies) = Inr (''['' # joined_lines j bodies @ ['']''])"
proof -
  have ne: "joined_lines j bodies \<noteq> []" by (simp add: joined_lines_def)
  have h: "hd (joined_lines j bodies) = ''{''" by (simp add: joined_lines_def)
  have l: "last (joined_lines j bodies) = ''}''" by (simp add: joined_lines_def)
  show ?thesis
    unfolding wrap_brackets_cases[OF ne] h l by simp
qed

subsection \<open>When the loop returns\<close>

lemma take_wavelength_total:
  assumes "lockstep st" "str_in ''wavelength'' (ls ! i) \<longrightarrow> f (numeric_text (ls ! i)) \<noteq> None"
  shows "\<exists>st'. take_wavelength f ls i st = Inr st'"
proof (cases "str_in ''wavelength'' (ls ! i)")
  case True
  with assms(2) obtain v where v: "f (numeric_text (ls ! i)) = Some v" by auto
  have "idx_j st < length (wavelengthList st)" using assms(1) by (simp add: lockstep_def)
  with True v show ?thesis by (simp add: take_wavelength_Inr)
next
  case False
  then show ?thesis by (simp add: take_wavelength_Inr)
qed

lemma take_spectrum_total:
  assumes "lockstep st" "str_in ''spectrum'' (ls ! i) \<longrightarrow> f (numeric_text (ls ! i)) \<noteq> None"
  shows "\<exists>st'. take_spectrum f ls i st = Inr st'"
proof (cases "str_in ''spectrum'' (ls ! i)")
  case True
  with assms(2) obtain v where v: "f (numeric_text (ls ! i)) = Some v" by auto
  have "idx_k st < length (spectrumList st)" using assms(1) by (simp add: lockstep_def)
  with True v show ?thesis by (simp add: take_spectrum_Inr)
next
  case False
  then show ?thesis by (simp add: take_spectrum_Inr)
qed

lemma new_slots_total:
  assumes "i < length ls" "4 \<le> length ls"
  shows "\<exists>st'. new_slots ls i st = Inr st'"
proof -
  from array_end_total[OF assms] obtain b where "array_end ls i = Inr b" ..
  then show ?thesis by (simp add: new_slots_Inr)
qed

lemma scan_line_total:
  assumes "lockstep st" "i < length ls" "4 \<le> length ls"
    and "str_in ''wavelength'' (ls ! i) \<or> str_in ''spectrum'' (ls ! i)
           \<longrightarrow> f (numeric_text (ls ! i)) \<noteq> None"
  shows "\<exists>st'. scan_line f ls i st = Inr st'"
proof -
  have "lockstep (mark_boundary ls i st)" using assms(1) by simp
  then obtain st1 where 1: "take_wavelength f ls i (mark_boundary ls i st) = Inr st1"
    using take_wavelength_total[of "mark_boundary ls i st" ls i f] assms(4) by auto
  then have l1: "lockstep st1"
    by (rule take_wavelength_lockstep) (simp add: assms(1))
  obtain st2 where 2: "new_slots ls i st1 = Inr st2"
    using new_slots_total[OF assms(2,3)] by auto
  then have l2: "lockstep st2" using l1 by (rule new_slots_lockstep)
  obtain st' where 3: "take_spectrum f ls i st2 = Inr st'"
    using take_spectrum_total[OF l2, of ls i f] assms(4) by auto
  show ?thesis using 1 2 3 by (simp add: scan_line_def ebind_def)
qed

lemma scan_loop_total:
  assumes "lockstep st" "4 \<le> length ls" "\<forall>i\<in>set is. i < length ls"
    and "\<forall>l\<in>set ls. str_in ''wavelength'' l \<or> str_in ''spectrum'' l \<longrightarrow> f (numeric_text l) \<noteq> None"
  shows "\<exists>st'. scan_loop f ls is st = Inr st'"
  using assms(1,3)
proof (induction "is" arbitrary: st)
  case Nil
  then show ?case by simp
next
  case (Cons i "is")
  have i: "i < length ls" using Cons.prems(2) by simp
  then have "str_in ''wavelength'' (ls ! i) \<or> str_in ''spectrum'' (ls ! i)
           \<longrightarrow> f (numeric_text (ls ! i)) \<noteq> None"
    using assms(4) by simp
  with Cons.prems(1) i assms(2) have "\<exists>s. scan_line f ls i st = Inr s"
    by (rule scan_line_total)
  then obtain s where s: "scan_line f ls i st = Inr s" ..
  have "lockstep s" by (rule scan_line_lockstep[OF s Cons.prems(1)])
  then have "\<exists>st'. scan_loop f ls is s = Inr st'"
    by (rule Cons.IH) (use Cons.prems(2) in simp)
  then show ?case using s by (simp add: ebind_def)
qed

lemma scan_total:
  assumes "4 \<le> length ls"
    and "\<forall>l\<in>set ls. str_in ''wavelength'' l \<or> str_in ''spectrum'' l \<longrightarrow> f (numeric_text l) \<noteq> None"
  shows "\<exists>st. scan f ls = Inr st"
  unfolding scan_def
  by (rule scan_loop_total[OF lockstep_init assms(1) _ assms(2)]) simp

subsection \<open>The empty slot at the end\<close>

lemma quiet_line_ends_empty:
  assumes "scan_line f ls i st = Inr st'" "lockstep st"
    and "\<not> str_in ''wavelength'' (ls ! i)" "\<not> str_in ''spectrum'' (ls ! i)"
    and "ends_empty st \<or> array_end ls i = Inr True"
  shows "ends_empty st'"
proof -
  from assms(1) obtain st1 st2 where
    1: "take_wavelength f ls i (mark_boundary ls i st) = Inr st1"
    and 2: "new_slots ls i st1 = Inr st2" and 3: "take_spectrum f ls i st2 = Inr st'"
    by (rule scan_line_Inr)
  have st1: "st1 = mark_boundary ls i st" using 1 assms(3) by (simp add: take_wavelength_Inr)
  have st': "st' = st2" using 3 assms(4) by (simp add: take_spectrum_Inr)
  from 2 obtain adv where a: "array_end ls i = Inr adv"
    and st2: "st2 = (if adv then st1\<lparr>wavelengthList := wavelengthList st1 @ [[]],
                                   idx_j := idx_j st1 + 1,
                                   spectrumList := spectrumList st1 @ [[]],
                                   idx_k := idx_k st1 + 1\<rparr>
                     else st1)"
    by (auto simp: new_slots_Inr)
  show ?thesis
  proof (cases adv)
    case True
    then show ?thesis
      using assms(2) by (simp add: st' st2 st1 ends_empty_def lockstep_def)
  next
    case False
    with a assms(5) have "ends_empty st" by simp
    then show ?thesis
      using False by (simp add: st' st2 st1 ends_empty_def lockstep_def)
  qed
qed

lemma scan_ends_empty:
  assumes "scan f ls = Inr st" "closes_last_array ls"
  shows "ends_empty st"
proof -
  from assms(2) obtain e where e: "e < length ls" and ae: "array_end ls e = Inr True"
    and sp: "\<not> str_in ''spectrum'' (ls ! e)"
    and later: "\<forall>i\<in>set [Suc e..<length ls].
        \<not> str_in ''wavelength'' (ls ! i) \<and> \<not> str_in ''spectrum'' (ls ! i)"
    unfolding closes_last_array_def by auto
  have wl: "\<not> str_in ''wavelength'' (ls ! e)"
    using ae by (auto simp: array_end_def split: if_splits)
  have "scan_loop f ls ([0..<e] @ e # [Suc e..<length ls]) scan_init = Inr st"
    using assms(1) e by (simp add: scan_def upt_split[symmetric])
  then obtain sa where sa: "scan_loop f ls [0..<e] scan_init = Inr sa"
    and rest: "scan_loop f ls (e # [Suc e..<length ls]) sa = Inr st"
    unfolding scan_loop_append ebind_Inr_iff by blast
  from rest obtain sb where sb: "scan_line f ls e sa = Inr sb"
    and tail: "scan_loop f ls [Suc e..<length ls] sb = Inr st"
    unfolding scan_loop.simps ebind_Inr_iff by blast
  have la: "lockstep sa" by (rule scan_loop_lockstep[OF sa lockstep_init])
  have eb: "ends_empty sb"
    by (rule quiet_line_ends_empty[OF sb la wl sp]) (simp add: ae)
  show ?thesis
  proof (rule scan_loop_invariant[of f ls "[Suc e..<length ls]" sb st ends_empty, OF tail eb])
    fix i s s'
    assume i: "i \<in> set [Suc e..<length ls]" and s: "ends_empty s"
      and step: "scan_line f ls i s = Inr s'"
    from i later have q: "\<not> str_in ''wavelength'' (ls ! i)" "\<not> str_in ''spectrum'' (ls ! i)"
      by auto
    from s have "lockstep s" by (simp add: ends_empty_def)
    from quiet_line_ends_empty[OF step this q] s show "ends_empty s'" by simp
  qed
qed

lemma ends_empty_slots:
  assumes "ends_empty st"
  shows "[] \<in> set (wavelengthList st)" "[] \<in> set (spectrumList st)"
proof -
  from assms have "wavelengthList st \<noteq> []" "spectrumList st \<noteq> []"
    by (auto simp: ends_empty_def lockstep_def)
  then have "last (wavelengthList st) \<in> set (wavelengthList st)"
    "last (spectrumList st) \<in> set (spectrumList st)"
    by simp_all
  with assms show "[] \<in> set (wavelengthList st)" "[] \<in> set (spectrumList st)"
    by (simp_all add: ends_empty_def)
qed

subsection \<open>The repairer on a log in the expected layout\<close>

lemma joined_lines_length:
  assumes "expected_layout bodies"
  shows "4 \<le> length (joined_lines j bodies)"
proof -
  from assms obtain b bs where bodies: "bodies = b # bs"
    by (cases bodies) (auto simp: expected_layout_def)
  from assms have "2 \<le> length b" by (simp add: bodies expected_layout_def)
  then show ?thesis by (simp add: joined_lines_def bodies)
qed

lemma joined_lines_set:
  "bodies \<noteq> [] \<Longrightarrow> set (joined_lines j bodies) \<subseteq> {''{'', ''}'', j} \<union> set (concat bodies)"
  by (cases bodies) (auto simp: joined_lines_def)

lemma joint_lines_hold_no_value:
  "\<not> str_in ''wavelength'' ''{''" "\<not> str_in ''wavelength'' ''}''" "\<not> str_in ''wavelength'' ''}{''"
  "\<not> str_in ''spectrum'' ''{''" "\<not> str_in ''spectrum'' ''}''" "\<not> str_in ''spectrum'' ''}{''"
  by simp_all

subsection \<open>When the repairer returns, and what a line adds\<close>

lemma stitched_lines_length: "length (stitched_lines ls) = length ls"
  by (simp add: stitched_lines_def)

lemma formatting_returns:
  assumes "scan f (split_nl content) = Inr st"
    and "[] \<in> set (wavelengthList st)" and "[] \<in> set (spectrumList st)"
  shows "\<exists>c'. formattingTheJSONFileAndReturnWavelengthAndSpectrum f content
           = Inr (remove1 [] (wavelengthList st), remove1 [] (spectrumList st), c')"
proof -
  have "length (stitched_lines (split_nl content)) \<noteq> 0"
    unfolding stitched_lines_length by simp
  then have ne: "stitched_lines (split_nl content) \<noteq> []" by simp
  from wrap_brackets_cases[OF ne] obtain wrapped where
    w: "wrap_brackets (stitched_lines (split_nl content)) = Inr wrapped" by blast
  show ?thesis
    unfolding formattingTheJSONFileAndReturnWavelengthAndSpectrum_def Let_def
    by (simp add: assms py_remove_def ebind_def scan_stitch[OF assms(1)] w del: stitch.simps)
qed

lemma scan_line_appends:
  assumes "lockstep st" "i < length ls" "4 \<le> length ls" "f (numeric_text (ls ! i)) = Some v"
  shows "\<exists>st'. scan_line f ls i st = Inr st'
     \<and> concat (wavelengthList st')
         = concat (wavelengthList st) @ (if str_in ''wavelength'' (ls ! i) then [v] else [])
     \<and> concat (spectrumList st')
         = concat (spectrumList st) @ (if str_in ''spectrum'' (ls ! i) then [v] else [])"
proof -
  from assms(4) have "str_in ''wavelength'' (ls ! i) \<or> str_in ''spectrum'' (ls ! i)
           \<longrightarrow> f (numeric_text (ls ! i)) \<noteq> None" by simp
  with assms(1-3) have "\<exists>st'. scan_line f ls i st = Inr st'" by (rule scan_line_total)
  then obtain st' where st': "scan_line f ls i st = Inr st'" ..
  from scan_line_values(1,2)[OF st' assms(1)] assms(4) st' show ?thesis
    by (simp add: wl_value_def sp_value_def)
qed

section \<open>Lemmas about the records of a log\<close>

subsection \<open>The slots while a record is read\<close>

lemma update_last_slot:
  assumes "Suc j = length acc"
  shows "acc[j := acc ! j @ vs] = butlast acc @ [last acc @ vs]"
proof (cases acc rule: rev_cases)
  case Nil
  with assms show ?thesis by simp
next
  case (snoc b l)
  with assms have "j = length b" by simp
  then show ?thesis by (simp add: snoc)
qed

lemma array_end_far:
  assumes "4 \<le> i" "i < length ls"
  shows "array_end ls i
    = Inr (\<not> str_in ''wavelength'' (ls ! i) \<and> str_in ''wavelength'' (ls ! (i - 4))
           \<and> \<not> str_in ''band'' (ls ! i) \<and> \<not> str_in '','' (ls ! i))"
proof -
  have "py_index ls (int i - 4) = Inr (ls ! (i - 4))"
    using assms by (simp add: py_index_def Let_def nat_diff_distrib')
  then show ?thesis by (auto simp: array_end_def ebind_def)
qed

lemma array_end_near:
  assumes "i < 4" "4 \<le> length ls"
  shows "array_end ls i
    = Inr (\<not> str_in ''wavelength'' (ls ! i) \<and> str_in ''wavelength'' (ls ! (length ls + i - 4))
           \<and> \<not> str_in ''band'' (ls ! i) \<and> \<not> str_in '','' (ls ! i))"
proof -
  have "nat (int (length ls) + (int i - 4)) = length ls + i - 4"
    using assms by linarith
  then have "py_index ls (int i - 4) = Inr (ls ! (length ls + i - 4))"
    using assms by (simp add: py_index_def Let_def)
  then show ?thesis by (auto simp: array_end_def ebind_def)
qed

lemma value_line_step:
  assumes "lockstep st" "array_end ls i = Inr False"
    and "str_in ''wavelength'' (ls ! i) \<or> str_in ''spectrum'' (ls ! i)
           \<longrightarrow> f (numeric_text (ls ! i)) \<noteq> None"
  shows "\<exists>st'. scan_line f ls i st = Inr st' \<and> lockstep st'
     \<and> wavelengthList st'
         = butlast (wavelengthList st) @ [last (wavelengthList st) @ wl_value f (ls ! i)]
     \<and> spectrumList st'
         = butlast (spectrumList st) @ [last (spectrumList st) @ sp_value f (ls ! i)]"
proof -
  let ?st0 = "mark_boundary ls i st"
  have l0: "lockstep ?st0" using assms(1) by simp
  have j: "Suc (idx_j st) = length (wavelengthList st)" "Suc (idx_k st) = length (spectrumList st)"
    using assms(1) by (simp_all add: lockstep_def)
  have ne: "wavelengthList st \<noteq> []" "spectrumList st \<noteq> []"
    using j by auto
  obtain st1 where 1: "take_wavelength f ls i ?st0 = Inr st1"
    and w1: "wavelengthList st1
        = butlast (wavelengthList st) @ [last (wavelengthList st) @ wl_value f (ls ! i)]"
    and s1: "spectrumList st1 = spectrumList st" and k1: "idx_k st1 = idx_k st"
  proof (cases "str_in ''wavelength'' (ls ! i)")
    case True
    with assms(3) obtain v where v: "f (numeric_text (ls ! i)) = Some v" by auto
    let ?s = "?st0\<lparr>wavelengthList := (wavelengthList ?st0)[idx_j ?st0 := wavelengthList ?st0 ! idx_j ?st0 @ [v]]\<rparr>"
    have "take_wavelength f ls i ?st0 = Inr ?s"
      using True v j by (simp add: take_wavelength_Inr)
    moreover have "wavelengthList ?s
        = butlast (wavelengthList st) @ [last (wavelengthList st) @ wl_value f (ls ! i)]"
      using True v update_last_slot[OF j(1), of "[v]"] by (simp add: wl_value_def)
    ultimately show ?thesis using that[of ?s] by simp
  next
    case False
    then have "take_wavelength f ls i ?st0 = Inr ?st0"
      by (simp add: take_wavelength_Inr)
    then show ?thesis using that[of ?st0] False ne by (simp add: wl_value_def)
  qed
  have l1: "lockstep st1" by (rule take_wavelength_lockstep[OF 1 l0])
  have 2: "new_slots ls i st1 = Inr st1"
    using assms(2) by (simp add: new_slots_def ebind_def)
  have k: "Suc (idx_k st1) = length (spectrumList st1)" using j(2) s1 k1 by simp
  obtain st' where 3: "take_spectrum f ls i st1 = Inr st'"
    and w3: "wavelengthList st' = wavelengthList st1"
    and s3: "spectrumList st'
        = butlast (spectrumList st) @ [last (spectrumList st) @ sp_value f (ls ! i)]"
  proof (cases "str_in ''spectrum'' (ls ! i)")
    case True
    with assms(3) obtain v where v: "f (numeric_text (ls ! i)) = Some v" by auto
    let ?s = "st1\<lparr>spectrumList := (spectrumList st1)[idx_k st1 := spectrumList st1 ! idx_k st1 @ [v]]\<rparr>"
    have "take_spectrum f ls i st1 = Inr ?s"
      using True v k by (simp add: take_spectrum_Inr)
    moreover have "spectrumList ?s
        = butlast (spectrumList st) @ [last (spectrumList st) @ sp_value f (ls ! i)]"
      using True v update_last_slot[OF k, of "[v]"] s1 by (simp add: sp_value_def)
    ultimately show ?thesis using that[of ?s] by simp
  next
    case False
    then have "take_spectrum f ls i st1 = Inr st1"
      by (simp add: take_spectrum_Inr)
    then show ?thesis using that[of st1] False ne s1 by (simp add: sp_value_def)
  qed
  have "scan_line f ls i st = Inr st'"
    by (simp only: scan_line_def 1 2 3 ebind_def sum.case)
  moreover have "lockstep st'" by (rule take_spectrum_lockstep[OF 3 l1])
  ultimately show ?thesis using w1 w3 s3 by simp
qed

lemma value_lines_run:
  assumes "lockstep st"
    and "\<forall>i\<in>set is. array_end ls i = Inr False"
    and "\<forall>i\<in>set is. str_in ''wavelength'' (ls ! i) \<or> str_in ''spectrum'' (ls ! i)
           \<longrightarrow> f (numeric_text (ls ! i)) \<noteq> None"
  shows "\<exists>st'. scan_loop f ls is st = Inr st' \<and> lockstep st'
     \<and> wavelengthList st'
         = butlast (wavelengthList st)
           @ [last (wavelengthList st) @ concat (map (\<lambda>i. wl_value f (ls ! i)) is)]
     \<and> spectrumList st'
         = butlast (spectrumList st)
           @ [last (spectrumList st) @ concat (map (\<lambda>i. sp_value f (ls ! i)) is)]"
  using assms
proof (induction "is" arbitrary: st)
  case Nil
  then have "wavelengthList st \<noteq> []" "spectrumList st \<noteq> []"
    by (auto simp: lockstep_def)
  then show ?case using Nil by simp
next
  case (Cons i "is")
  have "\<exists>s. scan_line f ls i st = Inr s \<and> lockstep s
     \<and> wavelengthList s
         = butlast (wavelengthList st) @ [last (wavelengthList st) @ wl_value f (ls ! i)]
     \<and> spectrumList s
         = butlast (spectrumList st) @ [last (spectrumList st) @ sp_value f (ls ! i)]"
    by (rule value_line_step) (use Cons.prems in simp_all)
  then obtain s where s: "scan_line f ls i st = Inr s" and l: "lockstep s"
    and w: "wavelengthList s
         = butlast (wavelengthList st) @ [last (wavelengthList st) @ wl_value f (ls ! i)]"
    and sp: "spectrumList s
         = butlast (spectrumList st) @ [last (spectrumList st) @ sp_value f (ls ! i)]"
    by blast
  have "\<exists>st'. scan_loop f ls is s = Inr st' \<and> lockstep st'
     \<and> wavelengthList st'
         = butlast (wavelengthList s)
           @ [last (wavelengthList s) @ concat (map (\<lambda>i. wl_value f (ls ! i)) is)]
     \<and> spectrumList st'
         = butlast (spectrumList s)
           @ [last (spectrumList s) @ concat (map (\<lambda>i. sp_value f (ls ! i)) is)]"
    by (rule Cons.IH[OF l]) (use Cons.prems in simp_all)
  then obtain st' where r: "scan_loop f ls is s = Inr st'" and l': "lockstep st'"
    and w': "wavelengthList st'
         = butlast (wavelengthList s)
           @ [last (wavelengthList s) @ concat (map (\<lambda>i. wl_value f (ls ! i)) is)]"
    and sp': "spectrumList st'
         = butlast (spectrumList s)
           @ [last (spectrumList s) @ concat (map (\<lambda>i. sp_value f (ls ! i)) is)]"
    by blast
  have "scan_loop f ls (i # is) st = Inr st'"
    using s r by (simp add: ebind_def)
  then show ?case using l' w' sp' w sp by simp
qed

lemma end_line_step:
  assumes "lockstep st" "array_end ls e = Inr True" "\<not> str_in ''spectrum'' (ls ! e)"
  shows "\<exists>st'. scan_line f ls e st = Inr st' \<and> lockstep st'
     \<and> wavelengthList st' = wavelengthList st @ [[]]
     \<and> spectrumList st' = spectrumList st @ [[]]"
proof -
  have wl: "\<not> str_in ''wavelength'' (ls ! e)"
    using assms(2) by (auto simp: array_end_def split: if_splits)
  let ?st0 = "mark_boundary ls e st"
  let ?st2 = "?st0\<lparr>wavelengthList := wavelengthList ?st0 @ [[]], idx_j := idx_j ?st0 + 1,
                    spectrumList := spectrumList ?st0 @ [[]], idx_k := idx_k ?st0 + 1\<rparr>"
  have 1: "take_wavelength f ls e ?st0 = Inr ?st0"
    using wl by (simp add: take_wavelength_def)
  have 2: "new_slots ls e ?st0 = Inr ?st2"
    using assms(2) by (simp add: new_slots_def ebind_def)
  have 3: "take_spectrum f ls e ?st2 = Inr ?st2"
    using assms(3) by (simp add: take_spectrum_def)
  have "scan_line f ls e st = Inr ?st2"
    by (simp only: scan_line_def 1 2 3 ebind_def sum.case)
  moreover have "lockstep ?st2" using assms(1) by (simp add: lockstep_def)
  ultimately show ?thesis by simp
qed

lemma values_quiet:
  "\<forall>i\<in>set is. \<not> str_in ''wavelength'' (ls ! i) \<Longrightarrow>
   concat (map (\<lambda>i. wl_value f (ls ! i)) is) = []"
  "\<forall>i\<in>set is. \<not> str_in ''spectrum'' (ls ! i) \<Longrightarrow>
   concat (map (\<lambda>i. sp_value f (ls ! i)) is) = []"
  by (simp_all add: wl_value_def sp_value_def)

lemma map_nth_interval:
  "a + m \<le> length ls \<Longrightarrow> map (\<lambda>i. h (ls ! i)) [a..<a + m] = map h (take m (drop a ls))"
  by (rule nth_equalityI) simp_all

lemma values_before_end:
  assumes "e < length b"
    and "\<forall>p\<in>set [e..<length b]. \<not> str_in ''wavelength'' (b ! p)"
  shows "wl_values f (take e b) = wl_values f b"
proof -
  have "\<forall>l\<in>set (drop e b). \<not> str_in ''wavelength'' l"
  proof
    fix l assume "l \<in> set (drop e b)"
    then obtain k where "k < length (drop e b)" "l = drop e b ! k"
      by (auto simp: in_set_conv_nth)
    then have "l = b ! (e + k)" "e + k < length b" by simp_all
    with assms(2) show "\<not> str_in ''wavelength'' l" by simp
  qed
  then have "concat (map (wl_value f) (drop e b)) = []"
    by (simp add: wl_value_def)
  moreover have "wl_values f b = wl_values f (take e b) @ concat (map (wl_value f) (drop e b))"
    unfolding wl_values_def by (subst append_take_drop_id[of e b, symmetric]) (simp only: map_append concat_append)
  ultimately show ?thesis by simp
qed

lemma spectrum_before_end:
  assumes "e < length b"
    and "\<forall>p\<in>set [e..<length b]. \<not> str_in ''spectrum'' (b ! p)"
  shows "sp_values f (take e b) = sp_values f b"
proof -
  have "\<forall>l\<in>set (drop e b). \<not> str_in ''spectrum'' l"
  proof
    fix l assume "l \<in> set (drop e b)"
    then obtain k where "k < length (drop e b)" "l = drop e b ! k"
      by (auto simp: in_set_conv_nth)
    then have "l = b ! (e + k)" "e + k < length b" by simp_all
    with assms(2) show "\<not> str_in ''spectrum'' l" by simp
  qed
  then have "concat (map (sp_value f) (drop e b)) = []"
    by (simp add: sp_value_def)
  moreover have "sp_values f b = sp_values f (take e b) @ concat (map (sp_value f) (drop e b))"
    unfolding sp_values_def by (subst append_take_drop_id[of e b, symmetric]) (simp only: map_append concat_append)
  ultimately show ?thesis by simp
qed

lemma body_array_end:
  assumes ls: "ls = xs @ (j # b) @ ys"
    and j: "\<not> str_in ''wavelength'' j"
    and ctx: "\<forall>q<4. array_end ls (length xs + q) = Inr False"
    and p: "p < length b"
  shows "array_end ls (length xs + Suc p) = Inr (closes_array b p)"
proof (cases "p < 3")
  case True
  then have "Suc p < 4" by simp
  with ctx have "array_end ls (length xs + Suc p) = Inr False" by blast
  with True show ?thesis by (simp add: closes_array_def)
next
  case False
  let ?i = "length xs + Suc p"
  have i: "4 \<le> ?i" "?i < length ls" using False p by (simp_all add: ls)
  have here: "ls ! ?i = b ! p" using p by (simp add: ls nth_append)
  have "?i - 4 = length xs + (p - 3)" using False by simp
  moreover have "(xs @ ((j # b) @ ys)) ! (length xs + (p - 3)) = ((j # b) @ ys) ! (p - 3)"
    by (rule nth_append_length_plus)
  moreover have "((j # b) @ ys) ! (p - 3) = (j # b) ! (p - 3)"
  proof -
    have "p - 3 < length (j # b)" using p by simp
    then show ?thesis by (simp only: nth_append if_True)
  qed
  ultimately have look: "ls ! (?i - 4) = (j # b) ! (p - 3)"
    by (simp only: ls)
  show ?thesis
  proof (cases "p = 3")
    case True
    with look have "ls ! (?i - 4) = j" by simp
    with j show ?thesis
      unfolding array_end_far[OF i] by (simp add: True closes_array_def)
  next
    case False
    with \<open>\<not> p < 3\<close> have p4: "4 \<le> p" by simp
    then have "(j # b) ! (p - 3) = b ! (p - 4)"
      by (simp add: nth_Cons' numeral_3_eq_3 numeral_eq_Suc)
    with look have "ls ! (?i - 4) = b ! (p - 4)" by simp
    then show ?thesis
      unfolding array_end_far[OF i] here using p p4 by (simp add: closes_array_def)
  qed
qed

lemma record_run:
  assumes ls: "ls = xs @ (j # b) @ ys"
    and j: "\<not> str_in ''wavelength'' j" "\<not> str_in ''spectrum'' j"
    and conv: "\<forall>l\<in>set b. str_in ''wavelength'' l \<or> str_in ''spectrum'' l
                 \<longrightarrow> f (numeric_text l) \<noteq> None"
    and one: "one_spectrometer b"
    and ctx: "\<forall>q<4. array_end ls (length xs + q) = Inr False"
    and st: "lockstep st" "wavelengthList st = W @ [[]]" "spectrumList st = S @ [[]]"
  shows "\<exists>st'. scan_loop f ls [length xs..<length xs + Suc (length b)] st = Inr st'
     \<and> lockstep st'
     \<and> wavelengthList st' = W @ [wl_values f b, []]
     \<and> spectrumList st' = S @ [sp_values f b, []]"
proof -
  let ?g = "length xs"
  from one have "\<exists>e\<in>set [0..<length b].
        closes_array b e \<and> \<not> str_in ''spectrum'' (b ! e)
        \<and> (\<forall>p\<in>set [0..<length b]. closes_array b p \<longrightarrow> p = e)
        \<and> (\<exists>p\<in>set [0..<e]. str_in ''spectrum'' (b ! p))
        \<and> (\<forall>p\<in>set [Suc e..<length b].
              \<not> str_in ''wavelength'' (b ! p) \<and> \<not> str_in ''spectrum'' (b ! p))"
    unfolding one_spectrometer_def by (rule conjunct1)
  then obtain e where e0: "e \<in> set [0..<length b]"
    and all: "closes_array b e \<and> \<not> str_in ''spectrum'' (b ! e)
        \<and> (\<forall>p\<in>set [0..<length b]. closes_array b p \<longrightarrow> p = e)
        \<and> (\<exists>p\<in>set [0..<e]. str_in ''spectrum'' (b ! p))
        \<and> (\<forall>p\<in>set [Suc e..<length b].
              \<not> str_in ''wavelength'' (b ! p) \<and> \<not> str_in ''spectrum'' (b ! p))"
    by (rule bexE)
  from e0 have e: "e < length b" by simp
  from all have ce: "closes_array b e" by (rule conjunct1)
  from all have spe: "\<not> str_in ''spectrum'' (b ! e)"
    by (rule conjunct2[THEN conjunct1])
  from all have uniq: "\<forall>p\<in>set [0..<length b]. closes_array b p \<longrightarrow> p = e"
    by (rule conjunct2[THEN conjunct2, THEN conjunct1])
  from all have after: "\<forall>p\<in>set [Suc e..<length b].
        \<not> str_in ''wavelength'' (b ! p) \<and> \<not> str_in ''spectrum'' (b ! p)"
    by (rule conjunct2[THEN conjunct2, THEN conjunct2, THEN conjunct2])
  have wle: "\<not> str_in ''wavelength'' (b ! e)" using ce by (simp add: closes_array_def)
  have line: "ls ! (?g + Suc p) = b ! p" if "p < length b" for p
    using that by (simp add: ls nth_append)
  have line0: "ls ! ?g = j" by (simp add: ls)
  have ae: "array_end ls (?g + Suc p) = Inr (closes_array b p)" if "p < length b" for p
    by (rule body_array_end[OF ls j(1) ctx that])
  have ae0: "array_end ls ?g = Inr False" using ctx[rule_format, of 0] by simp
  have no_end: "array_end ls (?g + Suc p) = Inr False" if "p < length b" "p \<noteq> e" for p
  proof -
    from that(1) have "p \<in> set [0..<length b]" by simp
    with uniq that(2) have "\<not> closes_array b p" by blast
    with ae[OF that(1)] show ?thesis by simp
  qed
  let ?I1 = "[?g..<?g + Suc e]" and ?I3 = "[?g + Suc (Suc e)..<?g + Suc (length b)]"
  have split: "[?g..<?g + Suc (length b)] = ?I1 @ (?g + Suc e) # ?I3"
  proof -
    have "?g + Suc (length b) = (?g + Suc e) + (length b - e)" using e by simp
    then have "[?g..<?g + Suc (length b)] = ?I1 @ [?g + Suc e..<?g + Suc (length b)]"
      using upt_add_eq_append[of ?g "?g + Suc e" "length b - e"] by simp
    also have "[?g + Suc e..<?g + Suc (length b)] = (?g + Suc e) # ?I3"
      using e upt_conv_Cons[of "?g + Suc e" "?g + Suc (length b)"] by simp
    finally show ?thesis .
  qed
  have I1: "i \<in> set ?I1 \<Longrightarrow> i = ?g \<or> (\<exists>p<e. i = ?g + Suc p)" for i
  proof -
    assume "i \<in> set ?I1"
    then have b: "?g \<le> i" "i < ?g + Suc e" by (simp_all del: upt_Suc)
    show ?thesis
    proof (cases "i = ?g")
      case True
      then show ?thesis by simp
    next
      case False
      with b have "i - ?g - 1 < e" "i = ?g + Suc (i - ?g - 1)" by arith+
      then show ?thesis by blast
    qed
  qed
  have I3: "i \<in> set ?I3 \<Longrightarrow> \<exists>p. e < p \<and> p < length b \<and> i = ?g + Suc p" for i
  proof -
    assume "i \<in> set ?I3"
    then have "?g + Suc (Suc e) \<le> i" "i < ?g + Suc (length b)" by (simp_all del: upt_Suc)
    then have "e < i - ?g - 1" "i - ?g - 1 < length b" "i = ?g + Suc (i - ?g - 1)" by arith+
    then show ?thesis by blast
  qed
  have end1: "\<forall>i\<in>set ?I1. array_end ls i = Inr False"
  proof
    fix i assume "i \<in> set ?I1"
    from I1[OF this] show "array_end ls i = Inr False"
    proof
      assume "i = ?g"
      with ae0 show ?thesis by simp
    next
      assume "\<exists>p<e. i = ?g + Suc p"
      then obtain p where p: "p < e" "i = ?g + Suc p" by blast
      with e have "p < length b" "p \<noteq> e" by simp_all
      from no_end[OF this] p(2) show ?thesis by simp
    qed
  qed
  have conv1: "\<forall>i\<in>set ?I1. str_in ''wavelength'' (ls ! i) \<or> str_in ''spectrum'' (ls ! i)
           \<longrightarrow> f (numeric_text (ls ! i)) \<noteq> None"
  proof
    fix i assume "i \<in> set ?I1"
    from I1[OF this] show "str_in ''wavelength'' (ls ! i) \<or> str_in ''spectrum'' (ls ! i)
           \<longrightarrow> f (numeric_text (ls ! i)) \<noteq> None"
    proof
      assume "i = ?g"
      then show ?thesis using j line0 by simp
    next
      assume "\<exists>p<e. i = ?g + Suc p"
      then obtain p where p: "p < e" "i = ?g + Suc p" by blast
      then have "ls ! i = b ! p" "b ! p \<in> set b" using line[of p] e by simp_all
      then show ?thesis using conv by simp
    qed
  qed
  have "\<exists>s. scan_loop f ls ?I1 st = Inr s \<and> lockstep s
     \<and> wavelengthList s
         = butlast (wavelengthList st)
           @ [last (wavelengthList st) @ concat (map (\<lambda>i. wl_value f (ls ! i)) ?I1)]
     \<and> spectrumList s
         = butlast (spectrumList st)
           @ [last (spectrumList st) @ concat (map (\<lambda>i. sp_value f (ls ! i)) ?I1)]"
    by (rule value_lines_run[OF st(1) end1 conv1])
  then obtain s1 where r1: "scan_loop f ls ?I1 st = Inr s1" and l1: "lockstep s1"
    and w1': "wavelengthList s1
         = butlast (wavelengthList st)
           @ [last (wavelengthList st) @ concat (map (\<lambda>i. wl_value f (ls ! i)) ?I1)]"
    and p1': "spectrumList s1
         = butlast (spectrumList st)
           @ [last (spectrumList st) @ concat (map (\<lambda>i. sp_value f (ls ! i)) ?I1)]"
    by blast
  have w1: "wavelengthList s1 = W @ [concat (map (\<lambda>i. wl_value f (ls ! i)) ?I1)]"
    unfolding w1' st(2) by simp
  have p1: "spectrumList s1 = S @ [concat (map (\<lambda>i. sp_value f (ls ! i)) ?I1)]"
    unfolding p1' st(3) by simp
  have len: "?g + Suc e \<le> length ls" using e by (simp add: ls)
  have pre: "take (Suc e) (drop ?g ls) = j # take e b"
    using e by (simp add: ls)
  have v1: "concat (map (\<lambda>i. wl_value f (ls ! i)) ?I1) = wl_values f b"
  proof -
    have "concat (map (\<lambda>i. wl_value f (ls ! i)) ?I1) = concat (map (wl_value f) (j # take e b))"
      unfolding map_nth_interval[OF len] pre ..
    also have "\<dots> = wl_values f (take e b)"
      using j(1) by (simp add: wl_values_def wl_value_def)
    also have "\<dots> = wl_values f b"
    proof (rule values_before_end[OF e])
      show "\<forall>p\<in>set [e..<length b]. \<not> str_in ''wavelength'' (b ! p)"
      proof
        fix p assume "p \<in> set [e..<length b]"
        then have "p = e \<or> p \<in> set [Suc e..<length b]" by auto
        then show "\<not> str_in ''wavelength'' (b ! p)" using wle after by blast
      qed
    qed
    finally show ?thesis .
  qed
  have v2: "concat (map (\<lambda>i. sp_value f (ls ! i)) ?I1) = sp_values f b"
  proof -
    have "concat (map (\<lambda>i. sp_value f (ls ! i)) ?I1) = concat (map (sp_value f) (j # take e b))"
      unfolding map_nth_interval[OF len] pre ..
    also have "\<dots> = sp_values f (take e b)"
      using j(2) by (simp add: sp_values_def sp_value_def)
    also have "\<dots> = sp_values f b"
    proof (rule spectrum_before_end[OF e])
      show "\<forall>p\<in>set [e..<length b]. \<not> str_in ''spectrum'' (b ! p)"
      proof
        fix p assume "p \<in> set [e..<length b]"
        then have "p = e \<or> p \<in> set [Suc e..<length b]" by auto
        then show "\<not> str_in ''spectrum'' (b ! p)" using spe after by blast
      qed
    qed
    finally show ?thesis .
  qed
  have "\<exists>s. scan_line f ls (?g + Suc e) s1 = Inr s \<and> lockstep s
     \<and> wavelengthList s = wavelengthList s1 @ [[]]
     \<and> spectrumList s = spectrumList s1 @ [[]]"
  proof (rule end_line_step[OF l1])
    show "array_end ls (?g + Suc e) = Inr True" using ae[OF e] ce by simp
    show "\<not> str_in ''spectrum'' (ls ! (?g + Suc e))" using line[OF e] spe by simp
  qed
  then obtain s2 where r2: "scan_line f ls (?g + Suc e) s1 = Inr s2" and l2: "lockstep s2"
    and w2': "wavelengthList s2 = wavelengthList s1 @ [[]]"
    and p2': "spectrumList s2 = spectrumList s1 @ [[]]"
    by blast
  have w2: "wavelengthList s2 = W @ [wl_values f b, []]"
    unfolding w2' w1 v1 by simp
  have p2: "spectrumList s2 = S @ [sp_values f b, []]"
    unfolding p2' p1 v2 by simp
  have quiet3: "\<forall>i\<in>set ?I3. \<not> str_in ''wavelength'' (ls ! i) \<and> \<not> str_in ''spectrum'' (ls ! i)"
  proof
    fix i assume "i \<in> set ?I3"
    from I3[OF this] obtain p where p: "e < p" "p < length b" "i = ?g + Suc p" by blast
    then have "ls ! i = b ! p" using line by simp
    moreover have "p \<in> set [Suc e..<length b]" using p by simp
    ultimately show "\<not> str_in ''wavelength'' (ls ! i) \<and> \<not> str_in ''spectrum'' (ls ! i)"
      using after by simp
  qed
  have end3: "\<forall>i\<in>set ?I3. array_end ls i = Inr False"
  proof
    fix i assume "i \<in> set ?I3"
    from I3[OF this] obtain p where p: "e < p" "p < length b" "i = ?g + Suc p" by blast
    then show "array_end ls i = Inr False" using no_end[of p] by simp
  qed
  have conv3: "\<forall>i\<in>set ?I3. str_in ''wavelength'' (ls ! i) \<or> str_in ''spectrum'' (ls ! i)
           \<longrightarrow> f (numeric_text (ls ! i)) \<noteq> None"
    using quiet3 by blast
  have "\<exists>s. scan_loop f ls ?I3 s2 = Inr s \<and> lockstep s
     \<and> wavelengthList s
         = butlast (wavelengthList s2)
           @ [last (wavelengthList s2) @ concat (map (\<lambda>i. wl_value f (ls ! i)) ?I3)]
     \<and> spectrumList s
         = butlast (spectrumList s2)
           @ [last (spectrumList s2) @ concat (map (\<lambda>i. sp_value f (ls ! i)) ?I3)]"
    by (rule value_lines_run[OF l2 end3 conv3])
  then obtain s3 where r3: "scan_loop f ls ?I3 s2 = Inr s3" and l3: "lockstep s3"
    and w3': "wavelengthList s3
         = butlast (wavelengthList s2)
           @ [last (wavelengthList s2) @ concat (map (\<lambda>i. wl_value f (ls ! i)) ?I3)]"
    and p3': "spectrumList s3
         = butlast (spectrumList s2)
           @ [last (spectrumList s2) @ concat (map (\<lambda>i. sp_value f (ls ! i)) ?I3)]"
    by blast
  have q1: "concat (map (\<lambda>i. wl_value f (ls ! i)) ?I3) = []"
    by (rule values_quiet(1)) (use quiet3 in blast)
  have q2: "concat (map (\<lambda>i. sp_value f (ls ! i)) ?I3) = []"
    by (rule values_quiet(2)) (use quiet3 in blast)
  have w3: "wavelengthList s3 = W @ [wl_values f b, []]"
    unfolding w3' w2 q1 by (simp add: butlast_append)
  have p3: "spectrumList s3 = S @ [sp_values f b, []]"
    unfolding p3' p2 q2 by (simp add: butlast_append)
  have "scan_loop f ls [?g..<?g + Suc (length b)] st = Inr s3"
    unfolding split scan_loop_append scan_loop.simps
    by (simp only: r1 r2 r3 ebind_def sum.case)
  with l3 w3 p3 show ?thesis by blast
qed

subsection \<open>The look-back from the first lines of a record\<close>

lemma upt_split_at: "a \<le> m \<Longrightarrow> m \<le> n \<Longrightarrow> [a..<n] = [a..<m] @ [m..<n]"
  using upt_add_eq_append[of a m "n - m"] by simp

lemma last_lines_member:
  assumes "4 \<le> length xs" "q < 4"
  shows "xs ! (length xs + q - 4) \<in> set (drop (length xs - 4) xs)"
proof -
  let ?n = "length xs - 4"
  have "drop ?n xs ! q \<in> set (drop ?n xs)"
    by (rule nth_mem) (use assms in simp)
  moreover have "drop ?n xs ! q = xs ! (?n + q)"
    by (rule nth_drop) simp
  moreover have "?n + q = length xs + q - 4" using assms(1) by simp
  ultimately show ?thesis by simp
qed

lemma look_back_previous:
  assumes "ls = xs @ zs" "4 \<le> length xs" "q < 4" "length xs + q < length ls"
    and "\<forall>l\<in>set (drop (length xs - 4) xs). \<not> str_in ''wavelength'' l"
  shows "array_end ls (length xs + q) = Inr False"
proof -
  let ?i = "length xs + q"
  have i: "4 \<le> ?i" "?i < length ls" using assms(2,4) by simp_all
  have "?i - 4 < length xs" using assms(2,3) by simp
  then have "ls ! (?i - 4) = xs ! (?i - 4)"
    by (simp add: assms(1) nth_append)
  with last_lines_member[OF assms(2,3)]
  have "ls ! (?i - 4) \<in> set (drop (length xs - 4) xs)" by simp
  with assms(5) have "\<not> str_in ''wavelength'' (ls ! (?i - 4))" by blast
  then show ?thesis unfolding array_end_far[OF i] by simp
qed

lemma look_back_wraps:
  assumes "4 \<le> length ls" "q < 4"
    and "\<forall>l\<in>set (drop (length ls - 4) ls). \<not> str_in ''wavelength'' l"
  shows "array_end ls q = Inr False"
proof -
  from last_lines_member[OF assms(1,2)] assms(3)
  have "\<not> str_in ''wavelength'' (ls ! (length ls + q - 4))" by blast
  then show ?thesis unfolding array_end_near[OF assms(2,1)] by simp
qed

lemma one_spectrometer_length: "one_spectrometer b \<Longrightarrow> 5 \<le> length b"
proof -
  assume "one_spectrometer b"
  then have "\<exists>e\<in>set [0..<length b]. closes_array b e"
    unfolding one_spectrometer_def by blast
  then show ?thesis by (auto simp: closes_array_def)
qed

lemma one_spectrometer_tail:
  "one_spectrometer b \<Longrightarrow> \<forall>l\<in>set (drop (length b - 4) b). \<not> str_in ''wavelength'' l"
  unfolding one_spectrometer_def by (rule conjunct2)

lemma tail_of_record:
  assumes "4 \<le> length b"
  shows "drop (length (xs @ j # b) - 4) (xs @ j # b) = drop (length b - 4) b"
proof -
  have e: "length (xs @ j # b) - 4 = length xs + Suc (length b - 4)" using assms by simp
  show ?thesis unfolding e by simp
qed

subsection \<open>The slots after the records of a log\<close>

lemma closing_line_run:
  assumes ls: "ls = xs @ [''}'']" and xs: "4 \<le> length xs"
    and tail: "\<forall>l\<in>set (drop (length xs - 4) xs). \<not> str_in ''wavelength'' l"
    and st: "lockstep st" "wavelengthList st = W @ [[]]" "spectrumList st = S @ [[]]"
  shows "\<exists>st'. scan_loop f ls [length xs..<length ls] st = Inr st' \<and> lockstep st'
     \<and> wavelengthList st' = W @ [[]] \<and> spectrumList st' = S @ [[]]"
proof -
  have idx: "[length xs..<length ls] = [length xs]" by (simp add: ls)
  have line: "ls ! length xs = ''}''" by (simp add: ls)
  have ae: "array_end ls (length xs + 0) = Inr False"
    by (rule look_back_previous[OF ls xs _ _ tail]) (simp_all add: ls)
  have "\<exists>st'. scan_loop f ls [length xs] st = Inr st' \<and> lockstep st'
     \<and> wavelengthList st'
         = butlast (wavelengthList st)
           @ [last (wavelengthList st) @ concat (map (\<lambda>i. wl_value f (ls ! i)) [length xs])]
     \<and> spectrumList st'
         = butlast (spectrumList st)
           @ [last (spectrumList st) @ concat (map (\<lambda>i. sp_value f (ls ! i)) [length xs])]"
    by (rule value_lines_run[OF st(1)]) (use ae line in simp_all)
  then show ?thesis
    unfolding idx st(2,3) by (simp add: line wl_value_def sp_value_def)
qed

lemma later_records_run:
  assumes "\<forall>b\<in>set bs. one_spectrometer b"
    and "\<forall>b\<in>set bs. \<forall>l\<in>set b. str_in ''wavelength'' l \<or> str_in ''spectrum'' l
                 \<longrightarrow> f (numeric_text l) \<noteq> None"
    and "ls = xs @ concat (map (\<lambda>b. ''}{'' # b) bs) @ [''}'']"
    and "4 \<le> length xs"
    and "\<forall>l\<in>set (drop (length xs - 4) xs). \<not> str_in ''wavelength'' l"
    and "lockstep st" "wavelengthList st = W @ [[]]" "spectrumList st = S @ [[]]"
  shows "\<exists>st'. scan_loop f ls [length xs..<length ls] st = Inr st' \<and> lockstep st'
     \<and> wavelengthList st' = W @ map (wl_values f) bs @ [[]]
     \<and> spectrumList st' = S @ map (sp_values f) bs @ [[]]"
  using assms
proof (induction bs arbitrary: xs st W S)
  case Nil
  from Nil.prems(3) have ls: "ls = xs @ [''}'']" by simp
  from closing_line_run[OF ls Nil.prems(4,5,6,7,8)] show ?case by simp
next
  case (Cons b bs)
  let ?ys = "concat (map (\<lambda>b. ''}{'' # b) bs) @ [''}'']"
  let ?xs' = "xs @ ''}{'' # b"
  have ls: "ls = xs @ (''}{'' # b) @ ?ys" using Cons.prems(3) by simp
  have one: "one_spectrometer b" using Cons.prems(1) by simp
  have len: "5 \<le> length b" by (rule one_spectrometer_length[OF one])
  have conv: "\<forall>l\<in>set b. str_in ''wavelength'' l \<or> str_in ''spectrum'' l
                 \<longrightarrow> f (numeric_text l) \<noteq> None"
    using Cons.prems(2) by simp
  have ctx: "\<forall>q<4. array_end ls (length xs + q) = Inr False"
  proof (intro allI impI)
    fix q :: nat assume q: "q < 4"
    show "array_end ls (length xs + q) = Inr False"
      by (rule look_back_previous[OF ls Cons.prems(4) q _ Cons.prems(5)])
        (use q len in \<open>simp add: ls\<close>)
  qed
  have "\<exists>s. scan_loop f ls [length xs..<length xs + Suc (length b)] st = Inr s
     \<and> lockstep s
     \<and> wavelengthList s = W @ [wl_values f b, []]
     \<and> spectrumList s = S @ [sp_values f b, []]"
    by (rule record_run[OF ls _ _ conv one ctx Cons.prems(6,7,8)]) simp_all
  then obtain s where r1: "scan_loop f ls [length xs..<length xs + Suc (length b)] st = Inr s"
    and l1: "lockstep s"
    and w1: "wavelengthList s = (W @ [wl_values f b]) @ [[]]"
    and p1: "spectrumList s = (S @ [sp_values f b]) @ [[]]"
    by auto
  have ls': "ls = ?xs' @ concat (map (\<lambda>b. ''}{'' # b) bs) @ [''}'']"
    using ls by simp
  have xs': "4 \<le> length ?xs'" using len by simp
  have tail': "\<forall>l\<in>set (drop (length ?xs' - 4) ?xs'). \<not> str_in ''wavelength'' l"
    unfolding tail_of_record[of b xs "''}{''"] using tail_of_record[of b xs "''}{''"] len
      one_spectrometer_tail[OF one] by simp
  have "\<exists>st'. scan_loop f ls [length ?xs'..<length ls] s = Inr st' \<and> lockstep st'
     \<and> wavelengthList st' = (W @ [wl_values f b]) @ map (wl_values f) bs @ [[]]
     \<and> spectrumList st' = (S @ [sp_values f b]) @ map (sp_values f) bs @ [[]]"
    by (rule Cons.IH[OF _ _ ls' xs' tail' l1 w1 p1]) (use Cons.prems(1,2) in simp_all)
  then obtain st' where r2: "scan_loop f ls [length ?xs'..<length ls] s = Inr st'"
    and l2: "lockstep st'"
    and w2: "wavelengthList st' = W @ map (wl_values f) (b # bs) @ [[]]"
    and p2: "spectrumList st' = S @ map (sp_values f) (b # bs) @ [[]]"
    by auto
  have lx: "length ?xs' = length xs + Suc (length b)" by simp
  have le: "length xs + Suc (length b) \<le> length ls" using ls' by simp
  have "[length xs..<length ls]
      = [length xs..<length xs + Suc (length b)] @ [length ?xs'..<length ls]"
    unfolding lx by (rule upt_split_at) (use le in simp_all)
  then have "scan_loop f ls [length xs..<length ls] st = Inr st'"
    by (simp only: scan_loop_append r1 r2 ebind_def sum.case)
  with l2 w2 p2 show ?case by blast
qed

lemma joined_lines_tail:
  assumes "bodies \<noteq> []" "4 \<le> length (last bodies)"
  shows "drop (length (joined_lines j bodies) - 4) (joined_lines j bodies)
      = drop (length (last bodies) - 3) (last bodies) @ [''}'']"
proof -
  obtain pre where pre: "joined_lines j bodies = pre @ last bodies @ [''}'']"
  proof (cases bodies)
    case Nil
    with assms(1) show ?thesis by simp
  next
    case (Cons b bs)
    show ?thesis
    proof (cases bs rule: rev_cases)
      case Nil
      then show ?thesis using that[of "[''{'']"] Cons by (simp add: joined_lines_def)
    next
      case (snoc bs' bl)
      then show ?thesis
        using that[of "''{'' # b @ concat (map (\<lambda>body. j # body) bs') @ [j]"] Cons
        by (simp add: joined_lines_def)
    qed
  qed
  let ?bl = "last bodies"
  have "length (pre @ ?bl @ [''}'']) - 4 = length pre + (length ?bl - 3)"
    using assms(2) by simp
  then show ?thesis unfolding pre using assms(2) by simp
qed

lemma joined_lines_quiet_tail:
  assumes "bodies \<noteq> []" "\<forall>b\<in>set bodies. one_spectrometer b"
  shows "\<forall>l\<in>set (drop (length (joined_lines j bodies) - 4) (joined_lines j bodies)).
           \<not> str_in ''wavelength'' l"
proof -
  let ?bl = "last bodies"
  have one: "one_spectrometer ?bl" using assms by simp
  have len: "4 \<le> length ?bl" using one_spectrometer_length[OF one] by simp
  have "set (drop (length ?bl - 3) ?bl) \<subseteq> set (drop (length ?bl - 4) ?bl)"
    by (rule set_drop_subset_set_drop) simp
  with one_spectrometer_tail[OF one]
  have "\<forall>l\<in>set (drop (length ?bl - 3) ?bl). \<not> str_in ''wavelength'' l" by blast
  then show ?thesis
    unfolding joined_lines_tail[OF assms(1) len] by simp
qed

lemma values_not_empty:
  assumes "one_spectrometer b"
  shows "wl_values f b \<noteq> []" "sp_values f b \<noteq> []"
proof -
  from assms have "\<exists>e\<in>set [0..<length b].
        closes_array b e \<and> \<not> str_in ''spectrum'' (b ! e)
        \<and> (\<forall>p\<in>set [0..<length b]. closes_array b p \<longrightarrow> p = e)
        \<and> (\<exists>p\<in>set [0..<e]. str_in ''spectrum'' (b ! p))
        \<and> (\<forall>p\<in>set [Suc e..<length b].
              \<not> str_in ''wavelength'' (b ! p) \<and> \<not> str_in ''spectrum'' (b ! p))"
    unfolding one_spectrometer_def by (rule conjunct1)
  then obtain e where e0: "e \<in> set [0..<length b]"
    and all: "closes_array b e \<and> \<not> str_in ''spectrum'' (b ! e)
        \<and> (\<forall>p\<in>set [0..<length b]. closes_array b p \<longrightarrow> p = e)
        \<and> (\<exists>p\<in>set [0..<e]. str_in ''spectrum'' (b ! p))
        \<and> (\<forall>p\<in>set [Suc e..<length b].
              \<not> str_in ''wavelength'' (b ! p) \<and> \<not> str_in ''spectrum'' (b ! p))"
    by (rule bexE)
  from e0 have e: "e < length b" by simp
  from all have ce: "closes_array b e" by (rule conjunct1)
  from all have "\<exists>p\<in>set [0..<e]. str_in ''spectrum'' (b ! p)"
    by (rule conjunct2[THEN conjunct2, THEN conjunct2, THEN conjunct1])
  then obtain p where p: "p < e" "str_in ''spectrum'' (b ! p)" by auto
  from ce have w: "str_in ''wavelength'' (b ! (e - 4))" by (simp add: closes_array_def)
  have "b ! (e - 4) \<in> set b" using e by simp
  with w have "\<exists>l\<in>set b. wl_value f l \<noteq> []" by (auto simp: wl_value_def)
  then show "wl_values f b \<noteq> []" by (simp add: wl_values_def)
  have "b ! p \<in> set b" using e p(1) by simp
  with p(2) have "\<exists>l\<in>set b. sp_value f l \<noteq> []" by (auto simp: sp_value_def)
  then show "sp_values f b \<noteq> []" by (simp add: sp_values_def)
qed

lemma remove1_last_slot: "[] \<notin> set xs \<Longrightarrow> remove1 [] (xs @ [[]]) = xs"
  by (simp add: remove1_append)

lemma scan_records:
  assumes "bodies \<noteq> []" "\<forall>b\<in>set bodies. one_spectrometer b"
    and "\<forall>l\<in>set (concat bodies). str_in ''wavelength'' l \<or> str_in ''spectrum'' l
           \<longrightarrow> f (numeric_text l) \<noteq> None"
  shows "\<exists>st. scan f (joined_lines ''}{'' bodies) = Inr st
     \<and> wavelengthList st = map (wl_values f) bodies @ [[]]
     \<and> spectrumList st = map (sp_values f) bodies @ [[]]"
proof -
  from assms(1) obtain b bs where bodies: "bodies = b # bs" by (cases bodies) auto
  let ?ls = "joined_lines ''}{'' bodies"
  let ?ys = "concat (map (\<lambda>b. ''}{'' # b) bs) @ [''}'']"
  have ls: "?ls = [] @ (''{'' # b) @ ?ys" by (simp add: joined_lines_def bodies)
  have one: "one_spectrometer b" using assms(2) bodies by simp
  have len: "5 \<le> length b" by (rule one_spectrometer_length[OF one])
  have n: "4 \<le> length ?ls" using len by (simp add: joined_lines_def bodies)
  have conv: "\<forall>l\<in>set b. str_in ''wavelength'' l \<or> str_in ''spectrum'' l
                 \<longrightarrow> f (numeric_text l) \<noteq> None"
    using assms(3) bodies by simp
  have ctx: "\<forall>q<4. array_end ?ls (length ([] :: string list) + q) = Inr False"
  proof (intro allI impI)
    fix q :: nat assume "q < 4"
    with look_back_wraps[OF n this joined_lines_quiet_tail[OF assms(1,2)]]
    show "array_end ?ls (length ([] :: string list) + q) = Inr False" by simp
  qed
  have "\<exists>s. scan_loop f ?ls [length ([] :: string list)..<length ([] :: string list) + Suc (length b)] scan_init = Inr s
     \<and> lockstep s
     \<and> wavelengthList s = [] @ [wl_values f b, []]
     \<and> spectrumList s = [] @ [sp_values f b, []]"
    by (rule record_run[OF ls _ _ conv one ctx lockstep_init]) (simp_all add: scan_init_def)
  then obtain s where r1: "scan_loop f ?ls [0..<Suc (length b)] scan_init = Inr s"
    and l1: "lockstep s"
    and w1: "wavelengthList s = [wl_values f b] @ [[]]"
    and p1: "spectrumList s = [sp_values f b] @ [[]]"
    by auto
  let ?xs = "''{'' # b"
  have ls': "?ls = ?xs @ concat (map (\<lambda>b. ''}{'' # b) bs) @ [''}'']"
    by (simp add: joined_lines_def bodies)
  have xs: "4 \<le> length ?xs" using len by simp
  have tail: "\<forall>l\<in>set (drop (length ?xs - 4) ?xs). \<not> str_in ''wavelength'' l"
    using tail_of_record[of b "[]" "''{''"] len one_spectrometer_tail[OF one] by simp
  have "\<exists>st. scan_loop f ?ls [length ?xs..<length ?ls] s = Inr st \<and> lockstep st
     \<and> wavelengthList st = [wl_values f b] @ map (wl_values f) bs @ [[]]
     \<and> spectrumList st = [sp_values f b] @ map (sp_values f) bs @ [[]]"
    by (rule later_records_run[OF _ _ ls' xs tail l1 w1 p1]) (use assms(2,3) bodies in auto)
  then obtain st where r2: "scan_loop f ?ls [Suc (length b)..<length ?ls] s = Inr st"
    and w2: "wavelengthList st = map (wl_values f) bodies @ [[]]"
    and p2: "spectrumList st = map (sp_values f) bodies @ [[]]"
    by (auto simp: bodies)
  have le: "Suc (length b) \<le> length ?ls" by (simp add: joined_lines_def bodies)
  have "[0..<length ?ls] = [0..<Suc (length b)] @ [Suc (length b)..<length ?ls]"
    by (rule upt_split_at) (use le in simp_all)
  then have "scan f ?ls = Inr st"
    unfolding scan_def by (simp only: scan_loop_append r1 r2 ebind_def sum.case)
  with w2 p2 show ?thesis by blast
qed



section \<open>Lemmas about the builder\<close>

subsection \<open>Dataset operations\<close>

lemma attach_Inr [simp]: "attach ds m = Inr a \<longleftrightarrow> m = Inr a"
  by (cases m) (simp_all add: attach_def)

lemma attach_Inl [simp]: "attach ds m = Inl x \<longleftrightarrow> (\<exists>e. m = Inl e \<and> x = (e, ds))"
  by (cases m) (auto simp: attach_def)

lemma create_assign:
  "assign (createVariable ds n ty dims) (length (variables ds)) d
     = add_var ds \<lparr>var_name = n, var_type = ty, var_dims = dims, var_data = d, var_units = None\<rparr>"
  by (simp add: assign_def createVariable_def add_var_def)

lemma set_units_add_var:
  "set_units (add_var ds v) (length (variables ds)) u = add_var ds (v\<lparr>var_units := Some u\<rparr>)"
  by (simp add: set_units_def add_var_def)

lemma variables_add_var [simp]: "variables (add_var ds v) = variables ds @ [v]"
  by (simp add: add_var_def)

lemma emit_text_eq: "emit_text data field ds = add_var ds (text_var (renameTheValue data) field)"
  by (simp add: emit_text_def create_assign text_var_def)

lemma emit_scalar_Inr:
  assumes "emit_scalar float dml data field ds = Inr ds'"
  shows "\<exists>vals hu hr un raws.
      getListOfValue float dml data = Inr vals
    \<and> contains_key field ''unit'' = Inr hu
    \<and> (if hu then \<exists>u. ebind (getitem field ''unit'') unit_lookup = Inr u \<and> un = Some u
        else un = None)
    \<and> contains_key field ''rawValue'' = Inr hr
    \<and> (if hr then getListOfRawValue float dml data = Inr raws
              \<and> ds' = add_var (add_var ds (time_series_var (renameTheValue data) vals un))
                        (time_series_var (renameTheValue data @ ''_rawValue'') raws None)
        else ds' = add_var ds (time_series_var (renameTheValue data) vals un))"
proof -
  let ?h = "length (variables ds)"
  let ?ds1 = "createVariable ds (renameTheValue data) NC_F4 [''time'']"
  from assms obtain vals where v: "getListOfValue float dml data = Inr vals"
    and r1: "ebind (attach (assign ?ds1 ?h (Numbers vals)) (contains_key field ''unit'')) (\<lambda>has_unit.
            ebind (if has_unit
                   then ebind (attach (assign ?ds1 ?h (Numbers vals)) (ebind (getitem field ''unit'') unit_lookup))
                          (\<lambda>u. Inr (set_units (assign ?ds1 ?h (Numbers vals)) ?h u))
                   else Inr (assign ?ds1 ?h (Numbers vals))) (\<lambda>ds3.
            ebind (attach ds3 (contains_key field ''rawValue'')) (\<lambda>has_raw.
              if has_raw
              then ebind (attach ds3 (getListOfRawValue float dml data)) (\<lambda>raws.
                     Inr (assign (createVariable ds3 (renameTheValue data @ ''_rawValue'') NC_F4 [''time''])
                            (length (variables ds3)) (Numbers raws)))
              else Inr ds3))) = Inr ds'"
    unfolding emit_scalar_def Let_def ebind_Inr_iff[of "attach _ (getListOfValue _ _ _)"] attach_Inr
    by blast
  let ?pv = "time_series_var (renameTheValue data) vals None :: 'a nc_variable"
  have ds2: "assign ?ds1 ?h (Numbers vals) = add_var ds ?pv"
    by (simp add: create_assign time_series_var_def)
  from r1[unfolded ds2] obtain hu ds3 hr where hu: "contains_key field ''unit'' = Inr hu"
    and u: "(if hu then ebind (attach (add_var ds ?pv) (ebind (getitem field ''unit'') unit_lookup))
                          (\<lambda>u. Inr (set_units (add_var ds ?pv) ?h u))
             else Inr (add_var ds ?pv)) = Inr ds3"
    and hr: "contains_key field ''rawValue'' = Inr hr"
    and r: "(if hr
              then ebind (attach ds3 (getListOfRawValue float dml data)) (\<lambda>raws.
                     Inr (assign (createVariable ds3 (renameTheValue data @ ''_rawValue'') NC_F4 [''time''])
                            (length (variables ds3)) (Numbers raws)))
              else Inr ds3) = Inr ds'"
    unfolding ebind_Inr_iff attach_Inr by blast
  obtain un where un: "if hu then \<exists>u. ebind (getitem field ''unit'') unit_lookup = Inr u \<and> un = Some u
        else un = None"
    and ds3: "ds3 = add_var ds (time_series_var (renameTheValue data) vals un)"
  proof (cases hu)
    case True
    with u obtain x where "ebind (getitem field ''unit'') unit_lookup = Inr x"
      and "ds3 = set_units (add_var ds ?pv) ?h x"
      by (auto simp: ebind_Inr_iff)
    then show ?thesis
      using that[of "Some x"] True by (simp add: set_units_add_var time_series_var_def)
  next
    case False
    with u show ?thesis using that[of None] by simp
  qed
  show ?thesis
  proof (cases hr)
    case True
    with r obtain raws where raw: "getListOfRawValue float dml data = Inr raws"
      and d: "ds' = assign (createVariable ds3 (renameTheValue data @ ''_rawValue'') NC_F4 [''time''])
                            (length (variables ds3)) (Numbers raws)"
      by (auto simp: ebind_Inr_iff)
    have "ds' = add_var ds3 (time_series_var (renameTheValue data @ ''_rawValue'') raws None)"
      by (simp only: d create_assign time_series_var_def)
    with v hu hr un ds3 True raw show ?thesis
      by - (rule exI[of _ vals], rule exI[of _ hu], rule exI[of _ hr], rule exI[of _ un],
          rule exI[of _ raws], simp)
  next
    case False
    with r have "ds' = ds3" by simp
    with v hu hr un ds3 False show ?thesis
      by - (rule exI[of _ vals], rule exI[of _ hu], rule exI[of _ hr], rule exI[of _ un],
          rule exI[of _ "[]"], simp)
  qed
qed

subsection \<open>List comprehensions\<close>

lemma emap_Inr:
  "emap g xs = Inr ys \<Longrightarrow> length ys = length xs \<and> (\<forall>i<length xs. g (xs ! i) = Inr (ys ! i))"
proof (induction xs arbitrary: ys)
  case Nil
  then show ?case by simp
next
  case (Cons x xs)
  from Cons.prems obtain y ys' where y: "g x = Inr y" and ys': "emap g xs = Inr ys'"
    and ys: "ys = y # ys'"
    by (auto simp: ebind_Inr_iff)
  from Cons.IH[OF ys'] y ys show ?case
    by (auto simp: nth_Cons split: nat.splits)
qed

subsection \<open>The branches of one iteration\<close>

lemma emit_spectrometer_Inr:
  assumes "emit_spectrometer to_int dml ds = Inr ds'"
  shows "\<exists>mfi it. getSpectrometerInformation to_int dml = Inr (mfi, it)
    \<and> ds' = add_var (add_var ds (time_series_var ''Spectrometer_maxFixedIntensity'' mfi None))
              (time_series_var ''Spectrometer_Integration_Time_In_Microseconds'' it None)"
proof -
  from assms obtain info info' where i: "getSpectrometerInformation to_int dml = Inr info"
    and i': "getSpectrometerInformation to_int dml = Inr info'"
    and d: "ds' = assign (createVariable
                (assign (createVariable ds ''Spectrometer_maxFixedIntensity'' NC_F4 [''time''])
                   (length (variables ds)) (Numbers (fst info)))
                ''Spectrometer_Integration_Time_In_Microseconds'' NC_F4 [''time''])
              (length (variables (assign (createVariable ds ''Spectrometer_maxFixedIntensity'' NC_F4 [''time''])
                   (length (variables ds)) (Numbers (fst info))))) (Numbers (snd info'))"
    unfolding emit_spectrometer_def Let_def ebind_Inr_iff attach_Inr by blast
  from i i' have same: "info' = info" by simp
  obtain mfi it where info: "info = (mfi, it)" by (cases info)
  have "ds' = add_var (add_var ds (time_series_var ''Spectrometer_maxFixedIntensity'' mfi None))
              (time_series_var ''Spectrometer_Integration_Time_In_Microseconds'' it None)"
    unfolding d same info by (simp only: create_assign time_series_var_def fst_conv snd_conv)
  with i info show ?thesis by blast
qed

lemma grows_refl [simp]: "grows ds ds"
  unfolding grows_def by (rule exI[of _ "[]"]) simp

lemma grows_trans: "grows a b \<Longrightarrow> grows b c \<Longrightarrow> grows a c"
  unfolding grows_def by (elim exE, rule_tac x = "new @ newa" in exI) simp

lemma grows_add_var [simp]: "grows ds (add_var ds v)"
  unfolding grows_def add_var_def by blast

lemma grows_add_var2 [simp]: "grows ds (add_var (add_var ds v) v')"
  by (rule grows_trans[OF grows_add_var grows_add_var])

lemma grows_variables: "grows ds ds' \<Longrightarrow> \<exists>new. variables ds' = variables ds @ new"
  unfolding grows_def by auto

lemma emit_scalar_grows:
  assumes "emit_scalar float dml data field ds = Inr ds'"
  shows "grows ds ds'"
proof -
  from emit_scalar_Inr[OF assms] obtain vals un raws hr where
    "if hr then ds' = add_var (add_var ds (time_series_var (renameTheValue data) vals un))
                        (time_series_var (renameTheValue data @ ''_rawValue'') raws None)
        else ds' = add_var ds (time_series_var (renameTheValue data) vals un)"
    by (metis (full_types))
  then show ?thesis by (cases hr) simp_all
qed

lemma emit_field_Inr:
  assumes "emit_field float to_int dml template data ds = Inr ds'"
  obtains field mid where "getitem template data = Inr field"
    and "if data \<noteq> ''spectrometer'' \<and> \<not> is_text field
         then emit_scalar float dml data field ds = Inr mid
         else if is_text field then mid = emit_text data field ds else mid = ds"
    and "if data = ''spectrometer'' then emit_spectrometer to_int dml mid = Inr ds' else ds' = mid"
proof -
  from assms obtain field mid where f: "getitem template data = Inr field"
    and m: "(if data \<noteq> ''spectrometer'' \<and> \<not> is_text field
            then emit_scalar float dml data field ds
            else if is_text field then Inr (emit_text data field ds)
            else Inr ds) = Inr mid"
    and e: "(if data = ''spectrometer'' then emit_spectrometer to_int dml mid else Inr mid) = Inr ds'"
    unfolding emit_field_def ebind_Inr_iff attach_Inr by blast
  show ?thesis
  proof (rule that[OF f])
    show "if data \<noteq> ''spectrometer'' \<and> \<not> is_text field
         then emit_scalar float dml data field ds = Inr mid
         else if is_text field then mid = emit_text data field ds else mid = ds"
      using m by (auto split: if_splits)
    show "if data = ''spectrometer'' then emit_spectrometer to_int dml mid = Inr ds' else ds' = mid"
      using e by (auto split: if_splits)
  qed
qed

lemma emit_field_grows:
  assumes "emit_field float to_int dml template data ds = Inr ds'"
  shows "grows ds ds'"
proof -
  from assms obtain field mid where
    m: "if data \<noteq> ''spectrometer'' \<and> \<not> is_text field
         then emit_scalar float dml data field ds = Inr mid
         else if is_text field then mid = emit_text data field ds else mid = ds"
    and e: "if data = ''spectrometer'' then emit_spectrometer to_int dml mid = Inr ds' else ds' = mid"
    by (rule emit_field_Inr)
  have 1: "grows ds mid"
    using m by (auto simp: emit_text_eq dest: emit_scalar_grows split: if_splits)
  have 2: "grows mid ds'"
    using e by (auto dest!: emit_spectrometer_Inr split: if_splits)
  show ?thesis by (rule grows_trans[OF 1 2])
qed

lemma emit_fields_grows:
  "emit_fields float to_int dml template ks ds = Inr ds' \<Longrightarrow> grows ds ds'"
proof (induction ks arbitrary: ds)
  case Nil
  then show ?case by simp
next
  case (Cons d ks)
  from Cons.prems obtain ds1 where 1: "emit_field float to_int dml template d ds = Inr ds1"
    and 2: "emit_fields float to_int dml template ks ds1 = Inr ds'"
    by (auto simp: ebind_Inr_iff)
  show ?case
    by (rule grows_trans[OF emit_field_grows[OF 1] Cons.IH[OF 2]])
qed

lemma emit_fields_append:
  "emit_fields float to_int dml template (xs @ ys) ds
     = ebind (emit_fields float to_int dml template xs ds) (emit_fields float to_int dml template ys)"
proof (induction xs arbitrary: ds)
  case Nil
  show ?case by (simp add: ebind_def)
next
  case (Cons x xs)
  show ?case
    by (cases "emit_field float to_int dml template x ds") (simp_all add: ebind_def Cons.IH)
qed

lemma emit_fields_reaches:
  assumes "emit_fields float to_int dml template ks ds = Inr ds'" "data \<in> set ks"
  shows "\<exists>ds1 ds2. grows ds ds1 \<and> emit_field float to_int dml template data ds1 = Inr ds2
            \<and> grows ds2 ds'"
proof -
  from assms(2) obtain xs ys where ks: "ks = xs @ data # ys"
    by (auto simp: in_set_conv_decomp)
  from assms(1)[unfolded ks emit_fields_append] obtain ds1 ds2 where
    1: "emit_fields float to_int dml template xs ds = Inr ds1"
    and 2: "emit_field float to_int dml template data ds1 = Inr ds2"
    and 3: "emit_fields float to_int dml template ys ds2 = Inr ds'"
    by (auto simp: ebind_Inr_iff)
  from emit_fields_grows[OF 1] 2 emit_fields_grows[OF 3] show ?thesis by blast
qed

lemma emit_spectrum_grows: "\<exists>new. variables (emit_spectrum wl sp ds) = variables ds @ new"
  by (auto simp: emit_spectrum_def Let_def create_assign createDimension_def
      split: option.splits list.splits)

subsection \<open>The whole builder\<close>

lemma fold_append_string:
  fixes ds :: "'v dataset"
  assumes "variables ds = [v]" "var_data v = (if xs = [] then NoData else Strings xs)"
  shows "fold (append_string 0) ts ds
     = ds\<lparr>variables := [v\<lparr>var_data := (if xs @ ts = [] then NoData else Strings (xs @ ts))\<rparr>]\<rparr>"
  using assms
proof (induction ts arbitrary: ds v xs)
  case Nil
  then show ?case by simp
next
  case (Cons t ts)
  let ?v = "v\<lparr>var_data := Strings (xs @ [t])\<rparr>"
  have step: "append_string 0 t ds = ds\<lparr>variables := [?v]\<rparr>"
    using Cons.prems by (auto simp: append_string_def assign_def)
  have "fold (append_string 0) ts (ds\<lparr>variables := [?v]\<rparr>)
      = (ds\<lparr>variables := [?v]\<rparr>)\<lparr>variables := [?v\<lparr>var_data :=
            (if (xs @ [t]) @ ts = [] then NoData else Strings ((xs @ [t]) @ ts))\<rparr>]\<rparr>"
    by (rule Cons.IH) simp_all
  then show ?case by (simp add: step)
qed

lemma time_state_eq:
  "fold (append_string 0) ts
     (createVariable (createDimension (Dataset out) ''time'' None) ''time'' NC_STR [''time''])
   = time_state out ts"
proof -
  let ?ds = "createVariable (createDimension (Dataset out) ''time'' None) ''time'' NC_STR [''time'']"
  let ?v = "\<lparr>var_name = ''time'', var_type = NC_STR, var_dims = [''time''], var_data = NoData,
             var_units = None\<rparr>"
  have "fold (append_string 0) ts ?ds
     = ?ds\<lparr>variables := [?v\<lparr>var_data := (if [] @ ts = [] then NoData else Strings ([] @ ts))\<rparr>]\<rparr>"
    by (rule fold_append_string) (simp_all add: createVariable_def createDimension_def Dataset_def)
  then show ?thesis
    by (cases "ts = []") (simp_all add: time_state_def createVariable_def createDimension_def Dataset_def)
qed

lemma build_Inr:
  assumes "build float to_int JSONArray out wl sp = Inr ds"
  obtains dml ts template ks ds3 where
    "emap (\<lambda>m. getitem m ''environment_sensor_set_reading'') JSONArray = Inr dml"
    and "emap (\<lambda>m. getitem m ''timestamp'') dml = Inr ts"
    and "py_index dml 0 = Inr template"
    and "keys_of template = Inr ks"
    and "emit_fields float to_int dml template ks (time_state out ts) = Inr ds3"
    and "ds = emit_spectrum wl sp ds3"
  using assms
  unfolding build_def Let_def ebind_Inr_iff attach_Inr time_state_eq
  by blast

lemma main_Inr:
  assumes "main float to_int JSONArray out wl sp rt cl = Inr ds"
  obtains ds0 t c where "build float to_int JSONArray out wl sp = Inr ds0"
    and "rt = Some t" and "cl = Some c"
    and "ds = ds0\<lparr>history := Some (t @ '': python '' @ c), is_closed := True\<rparr>"
  using assms unfolding main_def ebind_Inr_iff write_history_def
  by (auto split: option.splits)

text \<open>
  When the builder returns, every field of the first record has had its iteration, and
  what that iteration added is still in the container.
\<close>

lemma main_reaches:
  assumes "main float to_int JSONArray out wl sp rt cl = Inr ds"
    and "emap (\<lambda>m. getitem m ''environment_sensor_set_reading'') JSONArray = Inr dml"
    and "py_index dml 0 = Inr template"
    and "getitem template data = Inr field"
  shows "\<exists>ds1 ds2 new post. emit_field float to_int dml template data ds1 = Inr ds2
     \<and> variables ds2 = variables ds1 @ new \<and> variables ds = variables ds1 @ new @ post"
proof -
  from assms(1) obtain ds0 t c where b: "build float to_int JSONArray out wl sp = Inr ds0"
    and ds: "ds = ds0\<lparr>history := Some (t @ '': python '' @ c), is_closed := True\<rparr>"
    by (rule main_Inr)
  from b obtain dml' ts template' ks ds3 where
    1: "emap (\<lambda>m. getitem m ''environment_sensor_set_reading'') JSONArray = Inr dml'"
    and 3: "py_index dml' 0 = Inr template'"
    and 4: "keys_of template' = Inr ks"
    and 5: "emit_fields float to_int dml' template' ks (time_state out ts) = Inr ds3"
    and 6: "ds0 = emit_spectrum wl sp ds3"
    by (rule build_Inr)
  from 1 assms(2) have dml: "dml' = dml" by simp
  with 3 assms(3) have template: "template' = template" by simp
  have "data \<in> set ks"
    using 4 assms(4) unfolding template
    by (force simp: keys_of_def getitem_def split: json.splits option.splits
        dest!: map_of_SomeD)
  from emit_fields_reaches[OF 5 this] obtain ds1 ds2 where
    e: "emit_field float to_int dml template data ds1 = Inr ds2" and g: "grows ds2 ds3"
    unfolding dml template by blast
  from grows_variables[OF emit_field_grows[OF e]] obtain new where
    new: "variables ds2 = variables ds1 @ new" by blast
  from grows_variables[OF g] obtain p1 where p1: "variables ds3 = variables ds2 @ p1" by blast
  from emit_spectrum_grows[of wl sp ds3] obtain p2 where
    p2: "variables ds0 = variables ds3 @ p2" unfolding 6 by blast
  have "variables ds = variables ds1 @ new @ (p1 @ p2)"
    using ds new p1 p2 by simp
  with e new show ?thesis by blast
qed

subsection \<open>Units\<close>

lemma ebind_Inl [simp]: "ebind (Inl e) g = Inl e"
  by (simp add: ebind_def)

lemma ebind_Inr [simp]: "ebind (Inr a) g = g a"
  by (simp add: ebind_def)

lemma contains_key_object:
  "map_of fv k = Some x \<Longrightarrow> contains_key (JObject fv) k = Inr True"
  by (force simp: contains_key_def dest!: map_of_SomeD)

lemma getSpectrometerInformation_Inr:
  assumes "getSpectrometerInformation to_int dml = Inr (mfi, it)"
  shows "emap (\<lambda>m. ebind (getitem m ''spectrometer'') (\<lambda>sp.
              ebind (getitem sp ''maxFixedIntensity'') to_int)) dml = Inr mfi"
    and "emap (\<lambda>m. ebind (getitem m ''spectrometer'') (\<lambda>sp.
              ebind (getitem sp ''integration time in ?s'') to_int)) dml = Inr it"
  using assms unfolding getSpectrometerInformation_def ebind_Inr_iff by auto

lemma emit_scalar_unit_error:
  assumes "getListOfValue float dml data = Inr vals"
    and "map_of fv ''unit'' = Some (JString u)" and "map_of UNIT_DICTIONARY u = None"
  shows "emit_scalar float dml data (JObject fv) ds
     = Inl (KeyError, add_var ds (time_series_var (renameTheValue data) vals None))"
proof -
  have 1: "contains_key (JObject fv) ''unit'' = Inr True"
    by (rule contains_key_object[OF assms(2)])
  have 2: "ebind (getitem (JObject fv) ''unit'') unit_lookup = Inl KeyError"
    using assms(2,3) by (simp add: getitem_def unit_lookup_def ebind_def)
  show ?thesis
    unfolding emit_scalar_def Let_def create_assign
    by (simp add: assms(1) 1 2 attach_def time_series_var_def)
qed

lemma contains_key_absent:
  "map_of fv k = None \<Longrightarrow> contains_key (JObject fv) k = Inr False"
  by (simp add: contains_key_def map_of_eq_None_iff)

lemma unit_lookup_table:
  "map_of UNIT_DICTIONARY u = Some t \<Longrightarrow> unit_lookup (JString u) = Inr t"
  by (simp add: unit_lookup_def)

lemma emit_scalar_unit_ok:
  assumes "getListOfValue float dml data = Inr vals"
    and "map_of fv ''unit'' = Some (JString u)" and "map_of UNIT_DICTIONARY u = Some t"
  shows "map_of fv ''rawValue'' = None \<Longrightarrow>
      emit_scalar float dml data (JObject fv) ds
        = Inr (add_var ds (time_series_var (renameTheValue data) vals (Some t)))"
    and "map_of fv ''rawValue'' = Some y \<Longrightarrow> getListOfRawValue float dml data = Inr raws \<Longrightarrow>
      emit_scalar float dml data (JObject fv) ds
        = Inr (add_var (add_var ds (time_series_var (renameTheValue data) vals (Some t)))
                 (time_series_var (renameTheValue data @ ''_rawValue'') raws None))"
proof -
  have 1: "contains_key (JObject fv) ''unit'' = Inr True"
    by (rule contains_key_object[OF assms(2)])
  have 2: "ebind (getitem (JObject fv) ''unit'') unit_lookup = Inr t"
    using assms(2) unit_lookup_table[OF assms(3)] by (simp add: getitem_def)
  show "emit_scalar float dml data (JObject fv) ds
        = Inr (add_var ds (time_series_var (renameTheValue data) vals (Some t)))"
    if "map_of fv ''rawValue'' = None"
    unfolding emit_scalar_def Let_def
    by (simp add: assms(1) 1 2 contains_key_absent[OF that] attach_def create_assign
        set_units_add_var time_series_var_def del: variables_add_var)
  show "emit_scalar float dml data (JObject fv) ds
        = Inr (add_var (add_var ds (time_series_var (renameTheValue data) vals (Some t)))
                 (time_series_var (renameTheValue data @ ''_rawValue'') raws None))"
    if "map_of fv ''rawValue'' = Some y" "getListOfRawValue float dml data = Inr raws"
    unfolding emit_scalar_def Let_def
    by (simp add: assms(1) 1 2 contains_key_object[OF that(1)] that(2) attach_def create_assign
        set_units_add_var time_series_var_def del: variables_add_var)
qed

lemma emap_total:
  "length ys = length xs \<Longrightarrow> \<forall>i<length xs. g (xs ! i) = Inr (ys ! i) \<Longrightarrow> emap g xs = Inr ys"
proof (induction xs arbitrary: ys)
  case Nil
  then show ?case by simp
next
  case (Cons x xs)
  from Cons.prems(1) obtain y ys' where ys: "ys = y # ys'" by (cases ys) auto
  from Cons.prems(2) have "g x = Inr y" unfolding ys by force
  moreover have "emap g xs = Inr ys'"
  proof (rule Cons.IH)
    show "length ys' = length xs" using Cons.prems(1) ys by simp
    show "\<forall>i<length xs. g (xs ! i) = Inr (ys' ! i)"
    proof (intro allI impI)
      fix i assume "i < length xs"
      then have "Suc i < length (x # xs)" by simp
      with Cons.prems(2) have "g ((x # xs) ! Suc i) = Inr (ys ! Suc i)" by blast
      then show "g (xs ! i) = Inr (ys' ! i)" by (simp add: ys)
    qed
  qed
  ultimately show ?case by (simp add: ys)
qed

lemma emit_scalar_no_unit:
  assumes "getListOfValue float dml data = Inr vals"
    and "map_of fv ''unit'' = None"
    and "map_of fv ''rawValue'' = Some y" and "getListOfRawValue float dml data = Inr raws"
  shows "emit_scalar float dml data (JObject fv) ds
        = Inr (add_var (add_var ds (time_series_var (renameTheValue data) vals None))
                 (time_series_var (renameTheValue data @ ''_rawValue'') raws None))"
  unfolding emit_scalar_def Let_def
  by (simp add: assms(1,4) contains_key_absent[OF assms(2)] contains_key_object[OF assms(3)]
      attach_def create_assign time_series_var_def del: variables_add_var)

section \<open>The examples, evaluated\<close>

subsection \<open>The two-record log, evaluated\<close>

lemma split_log2: "split_nl log2 = log2_lines"
  unfolding log2_def by (rule split_join) (simp_all add: log2_lines_def)

lemma scan_log2:
  "scan decimal_float log2_lines =
     Inr \<lparr>linePosition = [18],
          wavelengthList = [[500, 600], [500, 600], []],
          spectrumList = [[1 / 10, 1 / 5], [3 / 10, 2 / 5], []],
          idx_j = 2, idx_k = 2\<rparr>"
  by code_simp

lemma stitch_log2: "stitch log2_lines [18] = Inr (log2_lines[18 := ''},{''])"
  by code_simp

lemma wrap_log2:
  "wrap_brackets (log2_lines[18 := ''},{'']) = Inr (''['' # log2_lines[18 := ''},{''] @ ['']''])"
  by code_simp

lemma formatting_log2:
  "formattingTheJSONFileAndReturnWavelengthAndSpectrum decimal_float log2 =
     Inr ([[500, 600], [500, 600]], [[1 / 10, 1 / 5], [3 / 10, 2 / 5]], log2_repaired)"
  by (simp add: formattingTheJSONFileAndReturnWavelengthAndSpectrum_def split_log2 scan_log2
      ebind_def py_remove_def stitch_log2 wrap_log2 log2_repaired_def del: stitch.simps)

subsection \<open>The other logs, evaluated\<close>

lemma split_late_log: "split_nl late_log = late_lines"
  unfolding late_log_def by (rule split_join) (simp_all add: late_lines_def)

lemma scan_late_log:
  "scan decimal_float late_lines =
     Inr \<lparr>linePosition = [2], wavelengthList = [[]], spectrumList = [[]], idx_j = 0, idx_k = 0\<rparr>"
  by code_simp

lemma stitch_late_log: "stitch late_lines [2] = Inr (late_lines[2 := ''},{''])"
  by code_simp

lemma wrap_late_log:
  "wrap_brackets (late_lines[2 := ''},{'']) = Inr (''['' # late_lines[2 := ''},{''] @ ['']''])"
  by code_simp

lemma formatting_late_log:
  "formattingTheJSONFileAndReturnWavelengthAndSpectrum decimal_float late_log =
     Inr ([], [], join_nl (''['' # late_lines[2 := ''},{''] @ ['']'']))"
  by (simp add: formattingTheJSONFileAndReturnWavelengthAndSpectrum_def split_late_log
      scan_late_log ebind_def py_remove_def stitch_late_log wrap_late_log del: stitch.simps)

lemma split_quoted_log: "split_nl quoted_log = quoted_lines"
  unfolding quoted_log_def by (rule split_join) (simp_all add: quoted_lines_def)

subsection \<open>The two-record log as a log in the expected layout\<close>

lemma layout_log2: "expected_layout log2_bodies"
  by code_simp

lemma lines_log2: "joined_lines ''}{'' log2_bodies = log2_lines"
  by code_simp

lemma split_bodies_log2: "split_nl (log_text log2_bodies) = log2_lines"
  using split_log_text[of log2_bodies] layout_log2
  by (simp add: expected_layout_def lines_log2)

lemma text_log2: "log_text log2_bodies = log2"
  by code_simp

lemma converts_log2:
  "\<forall>l\<in>set (concat log2_bodies).
     str_in ''wavelength'' l \<or> str_in ''spectrum'' l \<longrightarrow> decimal_float (numeric_text l) \<noteq> None"
  by code_simp

lemma closes_log2: "closes_last_array log2_lines"
  by code_simp

subsection \<open>The log with a field after the spectrometer, evaluated\<close>

lemma layout_trailing: "expected_layout trailing_bodies"
  by code_simp

lemma split_trailing_log: "split_nl trailing_log = joined_lines ''}{'' trailing_bodies"
  unfolding trailing_log_def using split_log_text[of trailing_bodies] layout_trailing
  by (simp add: expected_layout_def)

lemma scan_trailing:
  "scan decimal_float (joined_lines ''}{'' trailing_bodies) =
     Inr \<lparr>linePosition = [23],
          wavelengthList = [[500, 600, 500, 600]],
          spectrumList = [[1 / 10, 1 / 5, 3 / 10, 2 / 5]],
          idx_j = 0, idx_k = 0\<rparr>"
  by code_simp

lemma open_trailing: "\<not> closes_last_array (joined_lines ''}{'' trailing_bodies)"
  by code_simp

lemma formatting_trailing:
  "formattingTheJSONFileAndReturnWavelengthAndSpectrum decimal_float trailing_log =
     Inl (ValueError NotInList)"
  by (simp add: formattingTheJSONFileAndReturnWavelengthAndSpectrum_def split_trailing_log
      scan_trailing ebind_def py_remove_def)

lemma spectrometers_log2: "\<forall>b\<in>set log2_bodies. one_spectrometer b"
  by code_simp


subsection \<open>The example records, evaluated\<close>

lemma main_readings2:
  "main decimal_float decimal_int readings2 ''out.nc''
     (Some [[500, 600], [500, 600]]) (Some [[1 / 10, 1 / 5], [3 / 10, 2 / 5]])
     (Some ''Thu Apr 07 12:00:30 2016'') (Some ''in.json out'') = Inr container2"
  by code_simp

lemma main_readings2_no_time:
  "main decimal_float decimal_int readings2 ''out.nc''
     (Some [[500, 600], [500, 600]]) (Some [[1 / 10, 1 / 5], [3 / 10, 2 / 5]])
     None (Some ''in.json out'') = Inl (TypeError, container2_open)"
  by code_simp

lemma main_kelvin:
  "main decimal_float decimal_int kelvin_readings ''out.nc'' None None
     (Some ''Thu Apr 07 12:00:30 2016'') (Some ''in.json out'') = Inl (KeyError, kelvin_container)"
  by code_simp

lemma bodies_readings2:
  "emap (\<lambda>m. getitem m ''environment_sensor_set_reading'') readings2 = Inr bodies2"
  by code_simp

lemma template_readings2:
  "py_index bodies2 0 = Inr (reading_body ''2016.04.07-12:00:07'' ''21.5'' ''DegCelsius'' ''3000'')"
  by (simp add: py_index_def bodies2_def)

lemma temperature_readings2:
  "getitem (reading_body ''2016.04.07-12:00:07'' ''21.5'' ''DegCelsius'' ''3000'') ''temperature''
     = Inr (JObject (temperature ''21.5'' ''DegCelsius'' ''3000''))"
  by (simp add: getitem_def reading_body_def)

lemma spectrometer_readings2:
  "getitem (reading_body ''2016.04.07-12:00:07'' ''21.5'' ''DegCelsius'' ''3000'') ''spectrometer''
     = Inr spectrometer"
  by (simp add: getitem_def reading_body_def)

lemma bodies_kelvin:
  "emap (\<lambda>m. getitem m ''environment_sensor_set_reading'') kelvin_readings
     = Inr [reading_body ''2016.04.07-12:00:07'' ''294.6'' ''Kelvin'' ''3000'']"
  by code_simp

lemma temperature_kelvin:
  "getitem (reading_body ''2016.04.07-12:00:07'' ''294.6'' ''Kelvin'' ''3000'') ''temperature''
     = Inr (JObject (temperature ''294.6'' ''Kelvin'' ''3000''))"
  by (simp add: getitem_def reading_body_def)

lemma values_readings2:
  "getListOfValue decimal_float bodies2 ''temperature'' = Inr [43 / 2, 108 / 5]"
  by code_simp

lemma raw_values_readings2:
  "getListOfRawValue decimal_float bodies2 ''temperature'' = Inr [3000, 3001]"
  by code_simp

section \<open>The repairer's claims\<close>

text \<open>
  Claim C1, as amended.  The spec says that for every well-formed log of N records the
  file is rewritten as a JSON array of N objects.  The repairer works on lines and
  relies on more than well-formedness: the closing brace of a record and the opening
  brace of the next have to share a line (that line is the one replaced by \<open>},{\<close>), every
  line with \<open>wavelength\<close> or \<open>spectrum\<close> has to convert, and the accumulators have to end
  with an empty slot, which they do when the last such line is followed by the end of an
  array: a line without \<open>wavelength\<close>, \<open>band\<close> or a comma four lines after a line with
  \<open>wavelength\<close>.  What holds: for a log of N records laid out in this way the repairer
  returns, and the text it writes is an opening bracket on a line of its own, the N
  records' own texts in order with one comma between two of them, and a closing bracket
  on a line of its own.  This is the JSON array whose N elements are the records, and it
  parses whenever each record's own text does; the parse itself (\<open>json.loads\<close> in
  \<open>JSONHandler\<close>) is library code.
\<close>

theorem repaired_array:
  assumes "expected_layout bodies"
    and "\<forall>l\<in>set (concat bodies).
           str_in ''wavelength'' l \<or> str_in ''spectrum'' l \<longrightarrow> f (numeric_text l) \<noteq> None"
    and "closes_last_array (split_nl (log_text bodies))"
  shows "\<exists>st. scan f (split_nl (log_text bodies)) = Inr st
     \<and> formattingTheJSONFileAndReturnWavelengthAndSpectrum f (log_text bodies)
        = Inr (remove1 [] (wavelengthList st), remove1 [] (spectrumList st),
               array_text (map record_text bodies))"
proof -
  let ?ls = "joined_lines ''}{'' bodies"
  from assms(1) have ne: "bodies \<noteq> []"
    and nl: "\<forall>body\<in>set bodies. \<forall>l\<in>set body. CHR 0x0A \<notin> set l"
    by (auto simp: expected_layout_def)
  have ls: "split_nl (log_text bodies) = ?ls" by (rule split_log_text[OF ne nl])
  have conv: "\<forall>l\<in>set ?ls.
      str_in ''wavelength'' l \<or> str_in ''spectrum'' l \<longrightarrow> f (numeric_text l) \<noteq> None"
  proof
    fix l assume "l \<in> set ?ls"
    with joined_lines_set[OF ne, of "''}{''"]
    have "l \<in> {''{'', ''}'', ''}{''} \<or> l \<in> set (concat bodies)" by blast
    then show "str_in ''wavelength'' l \<or> str_in ''spectrum'' l \<longrightarrow> f (numeric_text l) \<noteq> None"
      using assms(2) joint_lines_hold_no_value by auto
  qed
  from scan_total[OF joined_lines_length[OF assms(1)] conv]
  obtain st where st: "scan f ?ls = Inr st" ..
  have "ends_empty st" by (rule scan_ends_empty[OF st]) (use assms(3) ls in simp)
  then have slots: "[] \<in> set (wavelengthList st)" "[] \<in> set (spectrumList st)"
    by (rule ends_empty_slots)+
  have stitch: "stitch ?ls (linePosition st) = Inr (joined_lines ''},{'' bodies)"
    using scan_stitch[OF st] stitched_joined[OF assms(1)] by simp
  have "formattingTheJSONFileAndReturnWavelengthAndSpectrum f (log_text bodies)
        = Inr (remove1 [] (wavelengthList st), remove1 [] (spectrumList st),
               array_text (map record_text bodies))"
    unfolding formattingTheJSONFileAndReturnWavelengthAndSpectrum_def ls Let_def
    by (simp add: st slots py_remove_def ebind_def stitch wrap_joined
        repaired_text[OF assms(1)] del: stitch.simps)
  with st ls show ?thesis by simp
qed

theorem repaired_array_witness:
  "expected_layout log2_bodies
   \<and> closes_last_array (split_nl (log_text log2_bodies))
   \<and> log_text log2_bodies = log2 \<and> length log2_bodies = 2
   \<and> formattingTheJSONFileAndReturnWavelengthAndSpectrum decimal_float log2 =
       Inr ([[500, 600], [500, 600]], [[1 / 10, 1 / 5], [3 / 10, 2 / 5]],
            array_text (map record_text log2_bodies))"
proof -
  have closes: "closes_last_array (split_nl (log_text log2_bodies))"
    using closes_log2 by (simp add: split_bodies_log2)
  from repaired_array[OF layout_log2 converts_log2 closes]
  obtain st where st: "scan decimal_float (split_nl (log_text log2_bodies)) = Inr st"
    and r: "formattingTheJSONFileAndReturnWavelengthAndSpectrum decimal_float (log_text log2_bodies)
        = Inr (remove1 [] (wavelengthList st), remove1 [] (spectrumList st),
               array_text (map record_text log2_bodies))"
    by auto
  from st have "st = \<lparr>linePosition = [18],
          wavelengthList = [[500, 600], [500, 600], []],
          spectrumList = [[1 / 10, 1 / 5], [3 / 10, 2 / 5], []],
          idx_j = 2, idx_k = 2\<rparr>"
    by (simp add: split_bodies_log2 scan_log2)
  with r have "formattingTheJSONFileAndReturnWavelengthAndSpectrum decimal_float log2 =
       Inr ([[500, 600], [500, 600]], [[1 / 10, 1 / 5], [3 / 10, 2 / 5]],
            array_text (map record_text log2_bodies))"
    by (simp add: text_log2)
  with layout_log2 closes text_log2 show ?thesis
    by (simp add: log2_bodies_def)
qed

text \<open>
  The claim as the spec states it fails on a log of two records whose spectrometer
  sub-object is followed by a temperature field.  Each record is a JSON object and the two
  are joined as the repairer expects, but the line that closes the spectrometer
  sub-object, four lines after the last wavelength, ends in a comma, so no new pair of
  slots is ever opened: all four wavelengths go to the first slot, no slot is empty,
  \<open>remove([])\<close> raises \<open>ValueError\<close>, and the file is left as it was.
\<close>

theorem trailing_field_counterexample:
  "expected_layout trailing_bodies \<and> length trailing_bodies = 2
   \<and> trailing_log = log_text trailing_bodies
   \<and> \<not> closes_last_array (split_nl trailing_log)
   \<and> scan decimal_float (split_nl trailing_log) =
       Inr \<lparr>linePosition = [23],
            wavelengthList = [[500, 600, 500, 600]],
            spectrumList = [[1 / 10, 1 / 5, 3 / 10, 2 / 5]],
            idx_j = 0, idx_k = 0\<rparr>
   \<and> formattingTheJSONFileAndReturnWavelengthAndSpectrum decimal_float trailing_log =
       Inl (ValueError NotInList)"
proof -
  have "length trailing_bodies = 2" by (simp add: trailing_bodies_def)
  moreover have "scan decimal_float (split_nl trailing_log) =
       Inr \<lparr>linePosition = [23],
            wavelengthList = [[500, 600, 500, 600]],
            spectrumList = [[1 / 10, 1 / 5, 3 / 10, 2 / 5]],
            idx_j = 0, idx_k = 0\<rparr>"
    unfolding split_trailing_log by (rule scan_trailing)
  moreover have "\<not> closes_last_array (split_nl trailing_log)"
    unfolding split_trailing_log by (rule open_trailing)
  ultimately show ?thesis
    using layout_trailing formatting_trailing trailing_log_def by simp
qed

text \<open>
  Claim C2, as amended.  The spec says that both series have one entry per record once
  the first, always empty, accumulator slot is dropped.  In the code a new pair of slots
  is opened at the end of a wavelength array, so the first slot receives the first
  record's values and the empty slot is the last one.  What holds: for a log of N records
  laid out as the repairer expects, each holding one spectrometer sub-object whose
  wavelength and spectrum lines convert, the repairer returns; before the drop both
  accumulators have N + 1 slots, the first N holding the conversions of the N records'
  wavelength (or spectrum) lines in order, none of them empty, and the last slot empty;
  the slot \<open>remove([])\<close> takes is therefore the last one, and each series returned has
  exactly N entries, one for each record.
\<close>

theorem series_entry_count:
  assumes "expected_layout bodies"
    and "\<forall>b\<in>set bodies. one_spectrometer b"
    and "\<forall>l\<in>set (concat bodies).
           str_in ''wavelength'' l \<or> str_in ''spectrum'' l \<longrightarrow> f (numeric_text l) \<noteq> None"
  shows "\<exists>st w s c'.
      formattingTheJSONFileAndReturnWavelengthAndSpectrum f (log_text bodies) = Inr (w, s, c')
    \<and> length w = length bodies \<and> length s = length bodies
    \<and> map (map Some) w
        = map (\<lambda>b. map (\<lambda>l. f (numeric_text l)) (filter (str_in ''wavelength'') b)) bodies
    \<and> map (map Some) s
        = map (\<lambda>b. map (\<lambda>l. f (numeric_text l)) (filter (str_in ''spectrum'') b)) bodies
    \<and> [] \<notin> set w \<and> [] \<notin> set s
    \<and> scan f (split_nl (log_text bodies)) = Inr st
    \<and> wavelengthList st = w @ [[]] \<and> spectrumList st = s @ [[]]"
proof -
  let ?w = "map (wl_values f) bodies" and ?s = "map (sp_values f) bodies"
  from assms(1) have ne: "bodies \<noteq> []"
    and nl: "\<forall>body\<in>set bodies. \<forall>l\<in>set body. CHR 0x0A \<notin> set l"
    by (auto simp: expected_layout_def)
  have ls: "split_nl (log_text bodies) = joined_lines ''}{'' bodies"
    by (rule split_log_text[OF ne nl])
  from scan_records[OF ne assms(2,3)] obtain st where
    st: "scan f (split_nl (log_text bodies)) = Inr st"
    and w: "wavelengthList st = ?w @ [[]]" and s: "spectrumList st = ?s @ [[]]"
    unfolding ls by blast
  have "[] \<noteq> wl_values f b \<and> [] \<noteq> sp_values f b" if "b \<in> set bodies" for b
    using assms(2) that values_not_empty[of b f] by (simp add: eq_commute[of "[]"])
  then have full: "[] \<notin> set ?w" "[] \<notin> set ?s"
    by auto
  have "[] \<in> set (wavelengthList st)" "[] \<in> set (spectrumList st)"
    by (simp_all add: w s)
  from formatting_returns[OF st this] obtain c' where
    "formattingTheJSONFileAndReturnWavelengthAndSpectrum f (log_text bodies)
       = Inr (remove1 [] (wavelengthList st), remove1 [] (spectrumList st), c')" ..
  then have r: "formattingTheJSONFileAndReturnWavelengthAndSpectrum f (log_text bodies)
       = Inr (?w, ?s, c')"
    unfolding w s remove1_last_slot[OF full(1)] remove1_last_slot[OF full(2)] .
  have conv: "\<forall>l\<in>set b. str_in ''wavelength'' l \<or> str_in ''spectrum'' l
      \<longrightarrow> f (numeric_text l) \<noteq> None" if "b \<in> set bodies" for b
    using assms(3) that by auto
  have vw: "map (map Some) ?w
        = map (\<lambda>b. map (\<lambda>l. f (numeric_text l)) (filter (str_in ''wavelength'') b)) bodies"
  proof -
    have "map Some (wl_values f b)
        = map (\<lambda>l. f (numeric_text l)) (filter (str_in ''wavelength'') b)"
      if "b \<in> set bodies" for b
      unfolding wl_values_def wl_value_def
      by (rule values_Some) (use conv[OF that] in blast)
    then show ?thesis by simp
  qed
  have vs: "map (map Some) ?s
        = map (\<lambda>b. map (\<lambda>l. f (numeric_text l)) (filter (str_in ''spectrum'') b)) bodies"
  proof -
    have "map Some (sp_values f b)
        = map (\<lambda>l. f (numeric_text l)) (filter (str_in ''spectrum'') b)"
      if "b \<in> set bodies" for b
      unfolding sp_values_def sp_value_def
      by (rule values_Some) (use conv[OF that] in blast)
    then show ?thesis by simp
  qed
  have "length ?w = length bodies" "length ?s = length bodies" by simp_all
  with r vw vs full st w s show ?thesis by blast
qed

theorem series_entry_count_witness:
  "expected_layout log2_bodies
   \<and> one_spectrometer (log2_bodies ! 0) \<and> one_spectrometer (log2_bodies ! 1)
   \<and> length log2_bodies = 2 \<and> log_text log2_bodies = log2
   \<and> formattingTheJSONFileAndReturnWavelengthAndSpectrum decimal_float log2 =
       Inr ([[500, 600], [500, 600]], [[1 / 10, 1 / 5], [3 / 10, 2 / 5]], log2_repaired)
   \<and> map (\<lambda>b. map (\<lambda>l. decimal_float (numeric_text l)) (filter (str_in ''wavelength'') b))
         log2_bodies
       = map (map Some) [[500, 600], [500, 600]]
   \<and> map (\<lambda>b. map (\<lambda>l. decimal_float (numeric_text l)) (filter (str_in ''spectrum'') b))
         log2_bodies
       = map (map Some) [[1 / 10, 1 / 5], [3 / 10, 2 / 5]]
   \<and> scan decimal_float (split_nl log2) =
       Inr \<lparr>linePosition = [18],
            wavelengthList = [[500, 600], [500, 600], []],
            spectrumList = [[1 / 10, 1 / 5], [3 / 10, 2 / 5], []],
            idx_j = 2, idx_k = 2\<rparr>"
proof -
  from series_entry_count[OF layout_log2 spectrometers_log2 converts_log2]
  obtain w s c' where
    r: "formattingTheJSONFileAndReturnWavelengthAndSpectrum decimal_float (log_text log2_bodies)
       = Inr (w, s, c')"
    and vw: "map (map Some) w
        = map (\<lambda>b. map (\<lambda>l. decimal_float (numeric_text l)) (filter (str_in ''wavelength'') b))
            log2_bodies"
    and vs: "map (map Some) s
        = map (\<lambda>b. map (\<lambda>l. decimal_float (numeric_text l)) (filter (str_in ''spectrum'') b))
            log2_bodies"
    by blast
  from r formatting_log2 have "w = [[500, 600], [500, 600]]"
    "s = [[1 / 10, 1 / 5], [3 / 10, 2 / 5]]"
    by (simp_all add: text_log2)
  with vw vs have v:
    "map (\<lambda>b. map (\<lambda>l. decimal_float (numeric_text l)) (filter (str_in ''wavelength'') b))
         log2_bodies
       = map (map Some) [[500, 600], [500, 600]]"
    "map (\<lambda>b. map (\<lambda>l. decimal_float (numeric_text l)) (filter (str_in ''spectrum'') b))
         log2_bodies
       = map (map Some) [[1 / 10, 1 / 5], [3 / 10, 2 / 5]]"
    by simp_all
  have one: "one_spectrometer (log2_bodies ! 0)" "one_spectrometer (log2_bodies ! 1)"
    using spectrometers_log2 by (simp_all add: log2_bodies_def)
  have len: "length log2_bodies = 2" by (simp add: log2_bodies_def)
  have sc: "scan decimal_float (split_nl log2) =
       Inr \<lparr>linePosition = [18],
            wavelengthList = [[500, 600], [500, 600], []],
            spectrumList = [[1 / 10, 1 / 5], [3 / 10, 2 / 5], []],
            idx_j = 2, idx_k = 2\<rparr>"
    unfolding split_log2 by (rule scan_log2)
  from layout_log2 one len text_log2 formatting_log2 v sc show ?thesis by (intro conjI)
qed

text \<open>
  The claim as the spec states it fails on the two-record log: before the drop the
  accumulators have three slots, the first holds the first record's wavelengths and is
  returned, and the slot dropped is the third.
\<close>

theorem first_slot_counterexample:
  "scan decimal_float (split_nl log2) =
     Inr \<lparr>linePosition = [18],
          wavelengthList = [[500, 600], [500, 600], []],
          spectrumList = [[1 / 10, 1 / 5], [3 / 10, 2 / 5], []],
          idx_j = 2, idx_k = 2\<rparr>
   \<and> formattingTheJSONFileAndReturnWavelengthAndSpectrum decimal_float log2 =
     Inr ([[500, 600], [500, 600]], [[1 / 10, 1 / 5], [3 / 10, 2 / 5]], log2_repaired)
   \<and> hd [[500, 600], [500, 600], [] :: rat list] \<noteq> []"
  using scan_log2 formatting_log2 unfolding split_log2 by simp


text \<open>
  Claim C5, as amended.  The spec says that the line before every re-introduction of the
  record marker after its first occurrence, and no other line, becomes \<open>},{\<close>.  The code
  does not look for a first occurrence: line 77 tests \<open>i > 2\<close>.  So the lines marked and
  replaced are exactly those followed by a line of index above 2 that contains the marker,
  whether or not that is the first occurrence; every other line is written back unchanged,
  and the only other change is the pair of brackets of lines 102--104.
\<close>

theorem boundary_replacement:
  assumes "formattingTheJSONFileAndReturnWavelengthAndSpectrum f content = Inr (w, s, c')"
  shows "\<exists>st body.
      scan f (split_nl content) = Inr st
    \<and> set (linePosition st)
        = {p. Suc p < length (split_nl content) \<and> 2 < Suc p \<and> str_in marker (split_nl content ! Suc p)}
    \<and> length body = length (split_nl content)
    \<and> (\<forall>p<length (split_nl content).
          body ! p = (if Suc p < length (split_nl content) \<and> 2 < Suc p
                         \<and> str_in marker (split_nl content ! Suc p)
                      then ''},{'' else split_nl content ! p))
    \<and> (c' = join_nl body \<or> c' = join_nl (''['' # body @ ['']'']))"
proof -
  let ?ls = "split_nl content"
  from assms obtain st stitched wrapped where st: "scan f ?ls = Inr st"
    and 1: "stitch ?ls (linePosition st) = Inr stitched"
    and 2: "wrap_brackets stitched = Inr wrapped" and 3: "c' = join_nl wrapped"
    by (rule formatting_Inr)
  have stitched: "stitched = stitched_lines ?ls"
    using scan_stitch[OF st] 1 by simp
  have ne: "stitched_lines ?ls \<noteq> []"
    by (simp add: stitched_lines_def)
  have pos: "set (linePosition st) = {p. boundary ?ls p}"
    using boundary_positions[of _ ?ls] scan_linePosition[OF st] by auto
  have "wrapped = stitched_lines ?ls \<or> wrapped = ''['' # stitched_lines ?ls @ ['']'']"
    using 2 wrap_brackets_cases[OF ne] stitched by (auto split: if_splits)
  then have "c' = join_nl (stitched_lines ?ls) \<or> c' = join_nl (''['' # stitched_lines ?ls @ ['']''])"
    using 3 by auto
  moreover have "length (stitched_lines ?ls) = length ?ls"
    by (simp add: stitched_lines_def)
  moreover have "\<forall>p<length ?ls. stitched_lines ?ls ! p
      = (if Suc p < length ?ls \<and> 2 < Suc p \<and> str_in marker (?ls ! Suc p) then ''},{'' else ?ls ! p)"
    by (simp add: stitched_lines_def boundary_def)
  ultimately show ?thesis
    using st pos unfolding boundary_def by blast
qed

theorem boundary_replacement_witness:
  "formattingTheJSONFileAndReturnWavelengthAndSpectrum decimal_float log2 =
     Inr ([[500, 600], [500, 600]], [[1 / 10, 1 / 5], [3 / 10, 2 / 5]], log2_repaired)
   \<and> (\<exists>st body.
      scan decimal_float log2_lines = Inr st
    \<and> set (linePosition st)
        = {p. Suc p < length log2_lines \<and> 2 < Suc p \<and> str_in marker (log2_lines ! Suc p)}
    \<and> length body = length log2_lines
    \<and> (\<forall>p<length log2_lines.
          body ! p = (if Suc p < length log2_lines \<and> 2 < Suc p
                         \<and> str_in marker (log2_lines ! Suc p)
                      then ''},{'' else log2_lines ! p))
    \<and> (log2_repaired = join_nl body \<or> log2_repaired = join_nl (''['' # body @ ['']''])))"
  using boundary_replacement[OF formatting_log2] formatting_log2
  unfolding split_log2 by blast

text \<open>
  The claim as the spec states it fails on \<open>late_log\<close>: its only marker line is line 3, a
  first occurrence, and yet line 2 (the opening brace) is replaced by \<open>},{\<close>.
\<close>

theorem first_marker_counterexample:
  "map (str_in marker) late_lines = [False, False, False, True, False, False, False]
   \<and> formattingTheJSONFileAndReturnWavelengthAndSpectrum decimal_float late_log
       = Inr ([], [], join_nl [''['', '''', '''', ''},{'',
                ''\"environment_sensor_set_reading\": {'',
                ''\"timestamp\": \"2016.04.07-12:00:07\"'', ''}'', ''}'', '']''])"
proof -
  have "map (str_in marker) late_lines = [False, False, False, True, False, False, False]"
    by code_simp
  moreover have "''['' # late_lines[2 := ''},{''] @ ['']'']
      = [''['', '''', '''', ''},{'', ''\"environment_sensor_set_reading\": {'',
         ''\"timestamp\": \"2016.04.07-12:00:07\"'', ''}'', ''}'', '']'']"
    by code_simp
  ultimately show ?thesis using formatting_late_log by simp
qed


text \<open>
  Claim C8.  For a line that contains \<open>wavelength\<close> or \<open>spectrum\<close>, the text handed to
  \<open>float\<close> is what follows the first colon, without the last two characters of the line.
  When this text converts, the iteration of the line returns and appends the value to the
  series the keyword names; and in a file of at least four lines where all these texts
  convert and the last of them is followed by the end of an array, the repairer returns.
  When the repairer returns, the values of each series are, in order, the conversions of
  these texts, none of them skipped or defaulted.  When the text of such a line does not
  convert, the repairer raises: it never returns, and in a file of at least four lines
  (where the look-back of line 82 cannot raise first) the exception is the
  \<open>ValueError\<close> of \<open>float\<close>.
\<close>

theorem numeric_extraction:
  assumes "i < length (split_nl content)"
    and "str_in ''wavelength'' (split_nl content ! i) \<or> str_in ''spectrum'' (split_nl content ! i)"
  shows "(\<forall>a b. split_nl content ! i = a @ CHR '':'' # b \<and> CHR '':'' \<notin> set a
            \<longrightarrow> numeric_text (split_nl content ! i) = take (length b - 2) b)
    \<and> (\<forall>w s c'. formattingTheJSONFileAndReturnWavelengthAndSpectrum float content = Inr (w, s, c')
          \<longrightarrow> float (numeric_text (split_nl content ! i)) \<noteq> None
            \<and> map Some (concat w)
                = map (\<lambda>l. float (numeric_text l)) (filter (str_in ''wavelength'') (split_nl content))
            \<and> map Some (concat s)
                = map (\<lambda>l. float (numeric_text l)) (filter (str_in ''spectrum'') (split_nl content)))
    \<and> (float (numeric_text (split_nl content ! i)) = None
          \<longrightarrow> (\<exists>e. formattingTheJSONFileAndReturnWavelengthAndSpectrum float content = Inl e)
            \<and> (4 \<le> length (split_nl content)
                 \<longrightarrow> formattingTheJSONFileAndReturnWavelengthAndSpectrum float content
                       = Inl (ValueError CouldNotConvertToFloat)))
    \<and> (\<forall>v st. float (numeric_text (split_nl content ! i)) = Some v \<and> lockstep st
            \<and> 4 \<le> length (split_nl content)
          \<longrightarrow> (\<exists>st'. scan_line float (split_nl content) i st = Inr st'
                \<and> concat (wavelengthList st')
                    = concat (wavelengthList st)
                      @ (if str_in ''wavelength'' (split_nl content ! i) then [v] else [])
                \<and> concat (spectrumList st')
                    = concat (spectrumList st)
                      @ (if str_in ''spectrum'' (split_nl content ! i) then [v] else [])))
    \<and> (4 \<le> length (split_nl content)
        \<and> (\<forall>l\<in>set (split_nl content).
               str_in ''wavelength'' l \<or> str_in ''spectrum'' l \<longrightarrow> float (numeric_text l) \<noteq> None)
        \<and> closes_last_array (split_nl content)
          \<longrightarrow> (\<exists>w s c'. formattingTheJSONFileAndReturnWavelengthAndSpectrum float content
                         = Inr (w, s, c')))"
proof (intro conjI allI impI)
  fix a b
  assume "split_nl content ! i = a @ CHR '':'' # b \<and> CHR '':'' \<notin> set a"
  then show "numeric_text (split_nl content ! i) = take (length b - 2) b"
    by (simp add: numeric_text_colon)
next
  fix w s c'
  assume ok: "formattingTheJSONFileAndReturnWavelengthAndSpectrum float content = Inr (w, s, c')"
  then obtain st where st: "scan float (split_nl content) = Inr st"
    and w: "w = remove1 [] (wavelengthList st)" and s: "s = remove1 [] (spectrumList st)"
    by (rule formatting_Inr)
  show "float (numeric_text (split_nl content ! i)) \<noteq> None"
    using scan_values(3)[OF st] assms by blast
  show "map Some (concat w)
      = map (\<lambda>l. float (numeric_text l)) (filter (str_in ''wavelength'') (split_nl content))"
    using scan_series(1)[OF st] w by (simp add: concat_remove1_Nil)
  show "map Some (concat s)
      = map (\<lambda>l. float (numeric_text l)) (filter (str_in ''spectrum'') (split_nl content))"
    using scan_series(2)[OF st] s by (simp add: concat_remove1_Nil)
next
  assume bad: "float (numeric_text (split_nl content ! i)) = None"
  have no: "scan float (split_nl content) \<noteq> Inr st" for st
    using scan_values(3)[of float "split_nl content" st] assms bad by blast
  then obtain e where e: "scan float (split_nl content) = Inl e"
    by (cases "scan float (split_nl content)") auto
  then show "\<exists>e. formattingTheJSONFileAndReturnWavelengthAndSpectrum float content = Inl e"
    using formatting_scan_Inl by blast
  assume "4 \<le> length (split_nl content)"
  with e have "e = ValueError CouldNotConvertToFloat" by (rule scan_Inl)
  with e show "formattingTheJSONFileAndReturnWavelengthAndSpectrum float content
      = Inl (ValueError CouldNotConvertToFloat)"
    using formatting_scan_Inl by blast
next
  fix v :: 'a and st :: "'a scan_state"
  assume "float (numeric_text (split_nl content ! i)) = Some v \<and> lockstep st
            \<and> 4 \<le> length (split_nl content)"
  then show "\<exists>st'. scan_line float (split_nl content) i st = Inr st'
                \<and> concat (wavelengthList st')
                    = concat (wavelengthList st)
                      @ (if str_in ''wavelength'' (split_nl content ! i) then [v] else [])
                \<and> concat (spectrumList st')
                    = concat (spectrumList st)
                      @ (if str_in ''spectrum'' (split_nl content ! i) then [v] else [])"
    using scan_line_appends[OF _ assms(1), of st float v] by blast
next
  assume h: "4 \<le> length (split_nl content)
        \<and> (\<forall>l\<in>set (split_nl content).
               str_in ''wavelength'' l \<or> str_in ''spectrum'' l \<longrightarrow> float (numeric_text l) \<noteq> None)
        \<and> closes_last_array (split_nl content)"
  then have "\<exists>st. scan float (split_nl content) = Inr st"
    using scan_total[of "split_nl content" float] by blast
  then obtain st where st: "scan float (split_nl content) = Inr st" ..
  have "ends_empty st" by (rule scan_ends_empty[OF st]) (use h in simp)
  then have "[] \<in> set (wavelengthList st)" "[] \<in> set (spectrumList st)"
    by (rule ends_empty_slots)+
  from formatting_returns[OF st this]
  show "\<exists>w s c'. formattingTheJSONFileAndReturnWavelengthAndSpectrum float content = Inr (w, s, c')"
    by blast
qed

theorem numeric_extraction_witness:
  "8 < length (split_nl log2)
   \<and> str_in ''wavelength'' (split_nl log2 ! 8)
   \<and> numeric_text (split_nl log2 ! 8) = '' 500.0''
   \<and> decimal_float '' 500.0'' = Some 500
   \<and> closes_last_array (split_nl log2)
   \<and> formattingTheJSONFileAndReturnWavelengthAndSpectrum decimal_float log2 =
       Inr ([[500, 600], [500, 600]], [[1 / 10, 1 / 5], [3 / 10, 2 / 5]], log2_repaired)
   \<and> map Some (concat [[500, 600], [500, 600 :: rat]])
       = map (\<lambda>l. decimal_float (numeric_text l)) (filter (str_in ''wavelength'') (split_nl log2))
   \<and> map Some (concat [[1 / 10, 1 / 5], [3 / 10, 2 / 5 :: rat]])
       = map (\<lambda>l. decimal_float (numeric_text l)) (filter (str_in ''spectrum'') (split_nl log2))
   \<and> (\<exists>st'. scan_line decimal_float (split_nl log2) 8 scan_init = Inr st'
          \<and> concat (wavelengthList st') = [500] \<and> concat (spectrumList st') = [])
   \<and> 1 < length (split_nl quoted_log)
   \<and> str_in ''wavelength'' (split_nl quoted_log ! 1)
   \<and> numeric_text (split_nl quoted_log ! 1) = '' \"500.0''
   \<and> decimal_float '' \"500.0'' = None
   \<and> 4 \<le> length (split_nl quoted_log)
   \<and> formattingTheJSONFileAndReturnWavelengthAndSpectrum decimal_float quoted_log
       = Inl (ValueError CouldNotConvertToFloat)"
proof -
  have a: "1 < length (split_nl quoted_log)"
    by (simp add: split_quoted_log quoted_lines_def)
  have b: "str_in ''wavelength'' (split_nl quoted_log ! 1)"
    unfolding split_quoted_log by code_simp
  have c: "numeric_text (split_nl quoted_log ! 1) = '' \"500.0''"
    unfolding split_quoted_log by code_simp
  have d: "decimal_float '' \"500.0'' = None"
    by code_simp
  have e: "4 \<le> length (split_nl quoted_log)"
    by (simp add: split_quoted_log quoted_lines_def)
  from numeric_extraction[OF a disjI1[OF b], where float = decimal_float] c d e
  have bad: "formattingTheJSONFileAndReturnWavelengthAndSpectrum decimal_float quoted_log
       = Inl (ValueError CouldNotConvertToFloat)"
    by simp
  have a2: "8 < length (split_nl log2)"
    by (simp add: split_log2 log2_lines_def)
  have b2: "str_in ''wavelength'' (split_nl log2 ! 8)"
    unfolding split_log2 by code_simp
  have c2: "numeric_text (split_nl log2 ! 8) = '' 500.0''"
    unfolding split_log2 by code_simp
  have d2: "decimal_float '' 500.0'' = Some 500"
    by code_simp
  have cl: "closes_last_array (split_nl log2)"
    unfolding split_log2 by (rule closes_log2)
  have no: "str_in ''spectrum'' (split_nl log2 ! 8) = False"
    unfolding split_log2 by code_simp
  note good = numeric_extraction[OF a2 disjI1[OF b2], where float = decimal_float]
  note ret = good[THEN conjunct2, THEN conjunct1, rule_format, OF formatting_log2]
  have wl: "map Some (concat [[500, 600], [500, 600 :: rat]])
       = map (\<lambda>l. decimal_float (numeric_text l)) (filter (str_in ''wavelength'') (split_nl log2))"
    by (rule ret[THEN conjunct2, THEN conjunct1])
  have sp: "map Some (concat [[1 / 10, 1 / 5], [3 / 10, 2 / 5 :: rat]])
       = map (\<lambda>l. decimal_float (numeric_text l)) (filter (str_in ''spectrum'') (split_nl log2))"
    by (rule ret[THEN conjunct2, THEN conjunct2])
  have len: "4 \<le> length (split_nl log2)"
    by (simp add: split_log2 log2_lines_def)
  have conv: "decimal_float (numeric_text (split_nl log2 ! 8)) = Some 500"
    by (simp only: c2 d2)
  from good[THEN conjunct2, THEN conjunct2, THEN conjunct2, THEN conjunct1, rule_format,
      of 500 scan_init, OF conjI[OF conv conjI[OF lockstep_init len]]]
  have line: "\<exists>st'. scan_line decimal_float (split_nl log2) 8 scan_init = Inr st'
          \<and> concat (wavelengthList st') = [500] \<and> concat (spectrumList st') = []"
    by (simp add: b2 no scan_init_def)
  from a2 b2 c2 d2 cl formatting_log2 wl sp line a b c d e bad show ?thesis
    by (intro conjI)
qed

text \<open>
  Claim C9.  Whenever the repairer returns, the wavelength series and the spectrum series
  it returns have the same length: in the final loop state the indices \<open>j\<close> and \<open>k\<close> are
  equal, each accumulator has one slot more than its index, and \<open>remove([])\<close> takes exactly
  one slot, an empty one, from each.
\<close>

theorem series_equal_length:
  assumes "formattingTheJSONFileAndReturnWavelengthAndSpectrum f content = Inr (w, s, c')"
  shows "length w = length s \<and>
    (\<exists>st. scan f (split_nl content) = Inr st \<and> idx_j st = idx_k st
       \<and> length (wavelengthList st) = idx_j st + 1 \<and> length (spectrumList st) = idx_k st + 1
       \<and> length w + 1 = length (wavelengthList st) \<and> length s + 1 = length (spectrumList st)
       \<and> [] \<in> set (wavelengthList st) \<and> w = remove1 [] (wavelengthList st)
       \<and> [] \<in> set (spectrumList st) \<and> s = remove1 [] (spectrumList st))"
proof -
  from assms obtain st where
    st: "scan f (split_nl content) = Inr st"
    and w: "[] \<in> set (wavelengthList st)" "w = remove1 [] (wavelengthList st)"
    and s: "[] \<in> set (spectrumList st)" "s = remove1 [] (spectrumList st)"
    by (rule formatting_Inr)
  have l: "lockstep st" by (rule scan_lockstep[OF st])
  have lw: "length w + 1 = length (wavelengthList st)"
    using w l by (simp add: length_remove1 lockstep_def)
  have ls: "length s + 1 = length (spectrumList st)"
    using s l by (simp add: length_remove1 lockstep_def)
  have "length w = length s" using lw ls l by (simp add: lockstep_def)
  moreover have "idx_j st = idx_k st" "length (wavelengthList st) = idx_j st + 1"
    "length (spectrumList st) = idx_k st + 1"
    using l by (simp_all add: lockstep_def)
  ultimately show ?thesis using st lw ls w s by blast
qed

theorem series_equal_length_witness:
  "formattingTheJSONFileAndReturnWavelengthAndSpectrum decimal_float log2 =
     Inr ([[500, 600], [500, 600]], [[1 / 10, 1 / 5], [3 / 10, 2 / 5]], log2_repaired)
   \<and> length [[500, 600], [500, 600 :: rat]] = length [[1 / 10, 1 / 5], [3 / 10, 2 / 5 :: rat]]"
  using series_equal_length[OF formatting_log2] formatting_log2 by simp


section \<open>The builder's claims\<close>

text \<open>
  Claim C3, as amended.  The spec says that a sequence of zero records gives a valid
  container with an empty time dimension.  The builder takes the first record as its
  template (\<open>dataMemberList[0]\<close>, line 186) and has no other source of fields: with no
  record it raises \<open>IndexError\<close> there, whatever its other arguments are, after it has
  created the time dimension and the still empty time variable.  The container is left
  with those two only, without provenance and not closed.
\<close>

theorem no_records_raises:
  "main float to_int [] out wl sp rt cl = Inl (IndexError, time_state out [])"
  by (simp add: main_def build_def ebind_def attach_def py_index_def time_state_def
      createVariable_def createDimension_def Dataset_def)

text \<open>The claim as the spec states it fails on the empty sequence: the builder raises.\<close>

theorem no_records_counterexample:
  "main decimal_float decimal_int [] ''out.nc'' None None
     (Some ''Thu Apr 07 12:00:30 2016'') (Some ''in.json out'')
   = Inl (IndexError,
       \<lparr>file_path = ''out.nc'', dimensions = [(''time'', None)],
        variables = [\<lparr>var_name = ''time'', var_type = NC_STR, var_dims = [''time''],
                      var_data = NoData, var_units = None\<rparr>],
        history = None, is_closed = False\<rparr>)"
  by code_simp


text \<open>
  Claim C4, as amended.  The spec says that the spectrometer field gets one time-indexed
  numeric variable like any non-text field, and two dedicated variables besides.  The
  guard \<open>data != 'spectrometer'\<close> of line 187 keeps the field out of the first branch, so
  no variable is created for the field itself.  What holds: when the builder returns and
  the first record's spectrometer field is not a string, the iteration for that field adds
  exactly two variables, \<open>Spectrometer_maxFixedIntensity\<close> and
  \<open>Spectrometer_Integration_Time_In_Microseconds\<close>, both over the time dimension, with one
  value per record, the \<open>int\<close> of that record's \<open>maxFixedIntensity\<close> and
  \<open>integration time in ?s\<close>; both are in the final container, next to each other.
\<close>

theorem spectrometer_variables:
  assumes "emap (\<lambda>m. getitem m ''environment_sensor_set_reading'') JSONArray = Inr dml"
    and "py_index dml 0 = Inr template"
    and "getitem template ''spectrometer'' = Inr field" and "\<not> is_text field"
    and "main float to_int JSONArray out wl sp rt cl = Inr ds"
  shows "\<exists>mfi it ds1 post.
      getSpectrometerInformation to_int dml = Inr (mfi, it)
    \<and> length mfi = length JSONArray \<and> length it = length JSONArray
    \<and> (\<forall>i<length JSONArray.
          ebind (getitem (dml ! i) ''spectrometer'')
            (\<lambda>s. ebind (getitem s ''maxFixedIntensity'') to_int) = Inr (mfi ! i)
        \<and> ebind (getitem (dml ! i) ''spectrometer'')
            (\<lambda>s. ebind (getitem s ''integration time in ?s'') to_int) = Inr (it ! i))
    \<and> emit_field float to_int dml template ''spectrometer'' ds1
        = Inr (add_var (add_var ds1 (time_series_var ''Spectrometer_maxFixedIntensity'' mfi None))
                 (time_series_var ''Spectrometer_Integration_Time_In_Microseconds'' it None))
    \<and> variables ds = variables ds1
        @ [time_series_var ''Spectrometer_maxFixedIntensity'' mfi None,
           time_series_var ''Spectrometer_Integration_Time_In_Microseconds'' it None] @ post"
proof -
  from main_reaches[OF assms(5) assms(1,2,3)] obtain ds1 ds2 new post where
    e: "emit_field float to_int dml template ''spectrometer'' ds1 = Inr ds2"
    and new: "variables ds2 = variables ds1 @ new"
    and all: "variables ds = variables ds1 @ new @ post"
    by blast
  from e obtain field' mid where f: "getitem template ''spectrometer'' = Inr field'"
    and b: "if ''spectrometer'' \<noteq> ''spectrometer'' \<and> \<not> is_text field'
         then emit_scalar float dml ''spectrometer'' field' ds1 = Inr mid
         else if is_text field' then mid = emit_text ''spectrometer'' field' ds1 else mid = ds1"
    and c: "if ''spectrometer'' = ''spectrometer'' then emit_spectrometer to_int dml mid = Inr ds2 else ds2 = mid"
    by (rule emit_field_Inr)
  from f assms(3) have "field' = field" by simp
  with b assms(4) have mid: "mid = ds1" by simp
  from c have "emit_spectrometer to_int dml ds1 = Inr ds2" unfolding mid by simp
  from emit_spectrometer_Inr[OF this] obtain mfi it where
    i: "getSpectrometerInformation to_int dml = Inr (mfi, it)"
    and ds2: "ds2 = add_var (add_var ds1 (time_series_var ''Spectrometer_maxFixedIntensity'' mfi None))
              (time_series_var ''Spectrometer_Integration_Time_In_Microseconds'' it None)"
    by blast
  have n: "length dml = length JSONArray" using emap_Inr[OF assms(1)] by simp
  note a = emap_Inr[OF getSpectrometerInformation_Inr(1)[OF i]]
  note b' = emap_Inr[OF getSpectrometerInformation_Inr(2)[OF i]]
  have l: "length mfi = length JSONArray" "length it = length JSONArray"
    using a b' n by simp_all
  have each: "\<forall>i<length JSONArray.
          ebind (getitem (dml ! i) ''spectrometer'')
            (\<lambda>s. ebind (getitem s ''maxFixedIntensity'') to_int) = Inr (mfi ! i)
        \<and> ebind (getitem (dml ! i) ''spectrometer'')
            (\<lambda>s. ebind (getitem s ''integration time in ?s'') to_int) = Inr (it ! i)"
    using a b' n by simp
  have "new = [time_series_var ''Spectrometer_maxFixedIntensity'' mfi None,
           time_series_var ''Spectrometer_Integration_Time_In_Microseconds'' it None]"
    using new ds2 by simp
  with all have "variables ds = variables ds1
        @ [time_series_var ''Spectrometer_maxFixedIntensity'' mfi None,
           time_series_var ''Spectrometer_Integration_Time_In_Microseconds'' it None] @ post"
    by simp
  with i l each e ds2 show ?thesis by blast
qed

theorem spectrometer_variables_witness:
  "main decimal_float decimal_int readings2 ''out.nc''
     (Some [[500, 600], [500, 600]]) (Some [[1 / 10, 1 / 5], [3 / 10, 2 / 5]])
     (Some ''Thu Apr 07 12:00:30 2016'') (Some ''in.json out'') = Inr container2
   \<and> \<not> is_text spectrometer
   \<and> (\<exists>mfi it ds1 post.
      getSpectrometerInformation decimal_int bodies2 = Inr (mfi, it)
    \<and> length mfi = length readings2 \<and> length it = length readings2
    \<and> (\<forall>i<length readings2.
          ebind (getitem (bodies2 ! i) ''spectrometer'')
            (\<lambda>s. ebind (getitem s ''maxFixedIntensity'') decimal_int) = Inr (mfi ! i)
        \<and> ebind (getitem (bodies2 ! i) ''spectrometer'')
            (\<lambda>s. ebind (getitem s ''integration time in ?s'') decimal_int) = Inr (it ! i))
    \<and> emit_field decimal_float decimal_int bodies2
          (reading_body ''2016.04.07-12:00:07'' ''21.5'' ''DegCelsius'' ''3000'') ''spectrometer'' ds1
        = Inr (add_var (add_var ds1 (time_series_var ''Spectrometer_maxFixedIntensity'' mfi None))
                 (time_series_var ''Spectrometer_Integration_Time_In_Microseconds'' it None))
    \<and> variables container2 = variables ds1
        @ [time_series_var ''Spectrometer_maxFixedIntensity'' mfi None,
           time_series_var ''Spectrometer_Integration_Time_In_Microseconds'' it None] @ post)"
proof -
  have t: "\<not> is_text spectrometer"
    by (simp add: is_text_def spectrometer_def)
  from main_readings2 t
    spectrometer_variables[OF bodies_readings2 template_readings2 spectrometer_readings2 t
      main_readings2]
  show ?thesis by - (intro conjI; assumption)
qed

text \<open>
  The claim as the spec states it fails on the two example records: the container has the
  two dedicated variables and no variable for the spectrometer field itself.
\<close>

theorem spectrometer_counterexample:
  "main decimal_float decimal_int readings2 ''out.nc''
     (Some [[500, 600], [500, 600]]) (Some [[1 / 10, 1 / 5], [3 / 10, 2 / 5]])
     (Some ''Thu Apr 07 12:00:30 2016'') (Some ''in.json out'') = Inr container2
   \<and> map var_name (variables container2)
       = [''time'', ''timestamp'', ''temperature'', ''temperature_rawValue'',
          ''Spectrometer_maxFixedIntensity'', ''Spectrometer_Integration_Time_In_Microseconds'',
          ''wavelength'', ''spectrum'']
   \<and> renameTheValue ''spectrometer'' = ''spectrometer''"
proof -
  have "map var_name (variables container2)
       = [''time'', ''timestamp'', ''temperature'', ''temperature_rawValue'',
          ''Spectrometer_maxFixedIntensity'', ''Spectrometer_Integration_Time_In_Microseconds'',
          ''wavelength'', ''spectrum'']"
    by (simp add: container2_def container2_open_def)
  moreover have "renameTheValue ''spectrometer'' = ''spectrometer''"
    by code_simp
  ultimately show ?thesis using main_readings2 by simp
qed





text \<open>
  Claim C10.  \<open>recordTime\<close> and \<open>commandLine\<close> default to \<open>None\<close>, and line 215
  concatenates them without a test.  With either of them \<open>None\<close> the builder never
  returns; when everything before line 215 succeeds it raises \<open>TypeError\<close> there, and the
  container it leaves differs from the one of the successful call only in the provenance
  attribute and in not being closed: the variables have been written.
\<close>

theorem provenance_required:
  assumes "recordTime = None \<or> commandLine = None"
  shows "(\<forall>ds. main float to_int JSONArray out wl sp recordTime commandLine \<noteq> Inr ds)
    \<and> (\<forall>ds0. build float to_int JSONArray out wl sp = Inr ds0
          \<longrightarrow> main float to_int JSONArray out wl sp recordTime commandLine = Inl (TypeError, ds0))
    \<and> (\<forall>t c ds. main float to_int JSONArray out wl sp (Some t) (Some c) = Inr ds
          \<longrightarrow> (\<exists>ds0. main float to_int JSONArray out wl sp recordTime commandLine
                        = Inl (TypeError, ds0)
                   \<and> ds = ds0\<lparr>history := Some (t @ '': python '' @ c), is_closed := True\<rparr>))"
proof (intro conjI allI impI)
  fix ds
  show "main float to_int JSONArray out wl sp recordTime commandLine \<noteq> Inr ds"
  proof
    assume "main float to_int JSONArray out wl sp recordTime commandLine = Inr ds"
    then obtain t c where "recordTime = Some t" "commandLine = Some c"
      by (rule main_Inr)
    with assms show False by simp
  qed
next
  fix ds0
  assume "build float to_int JSONArray out wl sp = Inr ds0"
  then show "main float to_int JSONArray out wl sp recordTime commandLine = Inl (TypeError, ds0)"
    using assms by (auto simp: main_def ebind_def write_history_def split: option.splits)
next
  fix t c ds
  assume "main float to_int JSONArray out wl sp (Some t) (Some c) = Inr ds"
  then obtain ds0 where b: "build float to_int JSONArray out wl sp = Inr ds0"
    and ds: "ds = ds0\<lparr>history := Some (t @ '': python '' @ c), is_closed := True\<rparr>"
    by (auto elim: main_Inr)
  have "main float to_int JSONArray out wl sp recordTime commandLine = Inl (TypeError, ds0)"
    using b assms by (auto simp: main_def ebind_def write_history_def split: option.splits)
  with ds show "\<exists>ds0. main float to_int JSONArray out wl sp recordTime commandLine
                        = Inl (TypeError, ds0)
                   \<and> ds = ds0\<lparr>history := Some (t @ '': python '' @ c), is_closed := True\<rparr>"
    by blast
qed

theorem provenance_required_witness:
  "main decimal_float decimal_int readings2 ''out.nc''
     (Some [[500, 600], [500, 600]]) (Some [[1 / 10, 1 / 5], [3 / 10, 2 / 5]])
     None (Some ''in.json out'') = Inl (TypeError, container2_open)
   \<and> main decimal_float decimal_int readings2 ''out.nc''
     (Some [[500, 600], [500, 600]]) (Some [[1 / 10, 1 / 5], [3 / 10, 2 / 5]])
     (Some ''Thu Apr 07 12:00:30 2016'') (Some ''in.json out'') = Inr container2
   \<and> container2 = container2_open\<lparr>history := Some (''Thu Apr 07 12:00:30 2016'' @ '': python '' @ ''in.json out''),
                                   is_closed := True\<rparr>"
proof -
  have a: "(None :: string option) = None \<or> Some ''in.json out'' = None" by simp
  note p = provenance_required[OF a, where float = decimal_float and to_int = decimal_int
      and JSONArray = readings2 and out = "''out.nc''"
      and wl = "Some [[500, 600], [500, 600]]" and sp = "Some [[1 / 10, 1 / 5], [3 / 10, 2 / 5]]"]
  from p[THEN conjunct2, THEN conjunct2, THEN spec, THEN spec, THEN spec, THEN mp,
      OF main_readings2]
  have "\<exists>ds0. main decimal_float decimal_int readings2 ''out.nc''
     (Some [[500, 600], [500, 600]]) (Some [[1 / 10, 1 / 5], [3 / 10, 2 / 5]])
     None (Some ''in.json out'') = Inl (TypeError, ds0)
     \<and> container2 = ds0\<lparr>history := Some (''Thu Apr 07 12:00:30 2016'' @ '': python '' @ ''in.json out''),
                          is_closed := True\<rparr>" .
  then obtain ds0 where 1: "main decimal_float decimal_int readings2 ''out.nc''
     (Some [[500, 600], [500, 600]]) (Some [[1 / 10, 1 / 5], [3 / 10, 2 / 5]])
     None (Some ''in.json out'') = Inl (TypeError, ds0)"
    and 2: "container2 = ds0\<lparr>history := Some (''Thu Apr 07 12:00:30 2016'' @ '': python '' @ ''in.json out''),
                          is_closed := True\<rparr>"
    by (elim exE conjE) (rule that; assumption)
  from 1 main_readings2_no_time have "ds0 = container2_open" by simp
  with 2 main_readings2_no_time main_readings2 show ?thesis by (intro conjI) simp_all
qed

end
